theory Spec2Isabelle
  imports Main "HOL-Library.Word"
begin

unbundle bit_operations_syntax

section \<open>Strings of the controller\<close>

text \<open>
  A JavaScript string is a sequence of 16-bit code units (UTF-16, in which a surrogate
  may stand alone). The texts of the program and of the examples are written with
  \<open>js\<close>, one code unit per character.
\<close>

type_synonym jsstring = "16 word list"

definition js :: "string \<Rightarrow> jsstring" where
  "js s = map (\<lambda>c. of_nat (of_char c)) s"

text \<open>
  The class \<open>\s\<close> of a regular expression, which is also the white space that
  \<open>trim\<close> removes: tab, line feed, vertical tab, form feed, carriage return, space,
  no-break space, U+1680, U+2000 to U+200A, U+2028, U+2029, U+202F, U+205F, U+3000 and
  U+FEFF.
\<close>

definition is_space :: "16 word \<Rightarrow> bool" where
  "is_space c =
     (let n = unat c
      in n = 9 \<or> n = 10 \<or> n = 11 \<or> n = 12 \<or> n = 13 \<or> n = 32 \<or> n = 160 \<or> n = 5760
         \<or> (8192 \<le> n \<and> n \<le> 8202) \<or> n = 8232 \<or> n = 8233 \<or> n = 8239 \<or> n = 8287
         \<or> n = 12288 \<or> n = 65279)"

text \<open>The class \<open>[a-z0-9\s]\<close> of \<open>generateFingerprint\<close>.\<close>

definition is_kept :: "16 word \<Rightarrow> bool" where
  "is_kept c =
     (let n = unat c
      in (97 \<le> n \<and> n \<le> 122) \<or> (48 \<le> n \<and> n \<le> 57) \<or> is_space c)"

text \<open>
  \<open>.toLowerCase().replace(/[^a-z0-9\s]/g, '')\<close>, code unit by code unit. Lower-casing
  yields a code unit of the class \<open>[a-z0-9\s]\<close> in these cases only: a code unit of the
  class stays as it is, \<open>A\<close> to \<open>Z\<close> become \<open>a\<close> to \<open>z\<close>, U+0130 becomes \<open>i\<close> followed
  by U+0307, and U+212A (the Kelvin sign) becomes \<open>k\<close>. Whatever else lower-casing
  produces (other letters, also in the final-sigma rule, and surrogates) is outside the
  class, and the replace removes it.
\<close>

definition lowered_kept :: "16 word \<Rightarrow> jsstring" where
  "lowered_kept c =
     (let n = unat c
      in if 65 \<le> n \<and> n \<le> 90 then [of_nat (n + 32)]
         else if n = 304 then [105]
         else if n = 8490 then [107]
         else if is_kept c then [c]
         else [])"

definition lower_and_strip :: "jsstring \<Rightarrow> jsstring" where
  "lower_and_strip s = concat (map lowered_kept s)"

definition trimStart :: "jsstring \<Rightarrow> jsstring" where
  "trimStart s = dropWhile is_space s"

definition trimEnd :: "jsstring \<Rightarrow> jsstring" where
  "trimEnd s = rev (dropWhile is_space (rev s))"

definition trim :: "jsstring \<Rightarrow> jsstring" where
  "trim s = trimEnd (trimStart s)"

text \<open>\<open>s.substring(0, n)\<close>\<close>

definition substring0 :: "nat \<Rightarrow> 'a list \<Rightarrow> 'a list" where
  "substring0 n s = take n s"

text \<open>
  The first statement of \<open>generateFingerprint\<close>:
  \<^verbatim>\<open>description.toLowerCase().replace(/[^a-z0-9\s]/g, '').trim().substring(0, 200)\<close>
\<close>

definition normalized :: "jsstring \<Rightarrow> jsstring" where
  "normalized description = substring0 200 (trim (lower_and_strip description))"

section \<open>SHA-256 (\<open>crypto.createHash('sha256')\<close>)\<close>

type_synonym u32 = "32 word"
type_synonym byte = "8 word"

text \<open>
  \<open>update(input)\<close> hashes the UTF-8 encoding of the string. The encoder reads the code
  units as code points: a high surrogate followed by a low one is one code point above
  U+FFFF, and a surrogate that stands alone is replaced by U+FFFD.
\<close>

definition is_high :: "nat \<Rightarrow> bool" where
  "is_high n = (55296 \<le> n \<and> n < 56320)"

definition is_low :: "nat \<Rightarrow> bool" where
  "is_low n = (56320 \<le> n \<and> n < 57344)"

fun code_points :: "jsstring \<Rightarrow> nat list" where
  "code_points [] = []"
| "code_points [c] = [if is_high (unat c) \<or> is_low (unat c) then 65533 else unat c]"
| "code_points (c # d # cs) =
     (if is_high (unat c) \<and> is_low (unat d)
      then (65536 + (unat c - 55296) * 1024 + (unat d - 56320)) # code_points cs
      else (if is_high (unat c) \<or> is_low (unat c) then 65533 else unat c)
           # code_points (d # cs))"

definition utf8_bytes :: "nat \<Rightarrow> nat list" where
  "utf8_bytes n =
     (if n < 128 then [n]
      else if n < 2048 then [192 + n div 64, 128 + n mod 64]
      else if n < 65536 then [224 + n div 4096, 128 + n div 64 mod 64, 128 + n mod 64]
      else [240 + n div 262144, 128 + n div 4096 mod 64, 128 + n div 64 mod 64,
            128 + n mod 64])"

definition utf8 :: "jsstring \<Rightarrow> byte list" where
  "utf8 s = map of_nat (concat (map utf8_bytes (code_points s)))"

text \<open>
  The round constants and the initial hash value of FIPS 180-4: the first 32 bits of the
  fractional parts of the cube roots of the first 64 primes, and of the square roots of
  the first 8.
\<close>

definition K256 :: "u32 list" where
  "K256 =
  [1116352408, 1899447441, 3049323471, 3921009573,
   961987163, 1508970993, 2453635748, 2870763221,
   3624381080, 310598401, 607225278, 1426881987,
   1925078388, 2162078206, 2614888103, 3248222580,
   3835390401, 4022224774, 264347078, 604807628,
   770255983, 1249150122, 1555081692, 1996064986,
   2554220882, 2821834349, 2952996808, 3210313671,
   3336571891, 3584528711, 113926993, 338241895,
   666307205, 773529912, 1294757372, 1396182291,
   1695183700, 1986661051, 2177026350, 2456956037,
   2730485921, 2820302411, 3259730800, 3345764771,
   3516065817, 3600352804, 4094571909, 275423344,
   430227734, 506948616, 659060556, 883997877,
   958139571, 1322822218, 1537002063, 1747873779,
   1955562222, 2024104815, 2227730452, 2361852424,
   2428436474, 2756734187, 3204031479, 3329325298]"

definition H256 :: "u32 list" where
  "H256 =
  [1779033703, 3144134277, 1013904242, 2773480762,
   1359893119, 2600822924, 528734635, 1541459225]"

definition rotr :: "nat \<Rightarrow> u32 \<Rightarrow> u32" where
  "rotr n x = drop_bit n x OR push_bit (32 - n) x"

definition Ch :: "u32 \<Rightarrow> u32 \<Rightarrow> u32 \<Rightarrow> u32" where
  "Ch x y z = (x AND y) XOR (NOT x AND z)"

definition Maj :: "u32 \<Rightarrow> u32 \<Rightarrow> u32 \<Rightarrow> u32" where
  "Maj x y z = (x AND y) XOR (x AND z) XOR (y AND z)"

definition Sigma0 :: "u32 \<Rightarrow> u32" where
  "Sigma0 x = rotr 2 x XOR rotr 13 x XOR rotr 22 x"

definition Sigma1 :: "u32 \<Rightarrow> u32" where
  "Sigma1 x = rotr 6 x XOR rotr 11 x XOR rotr 25 x"

definition sigma0 :: "u32 \<Rightarrow> u32" where
  "sigma0 x = rotr 7 x XOR rotr 18 x XOR drop_bit 3 x"

definition sigma1 :: "u32 \<Rightarrow> u32" where
  "sigma1 x = rotr 17 x XOR rotr 19 x XOR drop_bit 10 x"

text \<open>Padding: the byte 0x80, zero bytes up to 56 modulo 64, the bit length on 8 bytes.\<close>

definition length_bytes :: "nat \<Rightarrow> byte list" where
  "length_bytes bits =
     (let w = (of_nat bits :: 64 word)
      in map (\<lambda>i. ucast (drop_bit (8 * (7 - i)) w)) [0..<8])"

definition pad :: "byte list \<Rightarrow> byte list" where
  "pad m =
     (let l = length m;
          z = (119 - l mod 64) mod 64
      in m @ [0x80] @ replicate z 0 @ length_bytes (8 * l))"

fun be_word :: "byte list \<Rightarrow> u32" where
  "be_word [] = 0"
| "be_word (b # bs) = push_bit (8 * length bs) (ucast b) OR be_word bs"

fun chunks :: "nat \<Rightarrow> 'a list \<Rightarrow> 'a list list" where
  "chunks n [] = []"
| "chunks n (x # xs) =
     (if n = 0 then [] else take n (x # xs) # chunks n (drop n (x # xs)))"

text \<open>The message schedule: 16 words of the block, extended to 64.\<close>

fun schedule :: "nat \<Rightarrow> u32 list \<Rightarrow> u32 list" where
  "schedule 0 w = w"
| "schedule (Suc k) w =
     (let t = length w
      in schedule k
           (w @ [sigma1 (w ! (t - 2)) + w ! (t - 7) + sigma0 (w ! (t - 15)) + w ! (t - 16)]))"

text \<open>One round on the working variables \<open>a \<dots> h\<close>, kept as a list of eight words.\<close>

definition round256 :: "u32 list \<Rightarrow> u32 \<times> u32 \<Rightarrow> u32 list" where
  "round256 v kw =
     (let a = v ! 0; b = v ! 1; c = v ! 2; d = v ! 3;
          e = v ! 4; f = v ! 5; g = v ! 6; h = v ! 7;
          t1 = h + Sigma1 e + Ch e f g + fst kw + snd kw;
          t2 = Sigma0 a + Maj a b c
      in [t1 + t2, a, b, c, d + t1, e, f, g])"

definition compress :: "u32 list \<Rightarrow> byte list \<Rightarrow> u32 list" where
  "compress hs block =
     (let w = schedule 48 (map be_word (chunks 4 block));
          v = foldl round256 hs (zip K256 w)
      in map (\<lambda>(x, y). x + y) (zip hs v))"

definition sha256 :: "byte list \<Rightarrow> u32 list" where
  "sha256 m = foldl compress H256 (chunks 64 (pad m))"

text \<open>\<open>digest('hex')\<close>: eight lower-case hexadecimal digits per word.\<close>

definition hex_digit :: "nat \<Rightarrow> 16 word" where
  "hex_digit n = (if n < 10 then of_nat (48 + n) else of_nat (87 + n))"

definition hex_word :: "u32 \<Rightarrow> jsstring" where
  "hex_word w = map (\<lambda>i. hex_digit (unat (drop_bit (4 * (7 - i)) w AND 15))) [0..<8]"

definition sha256_hex :: "byte list \<Rightarrow> jsstring" where
  "sha256_hex m = concat (map hex_word (sha256 m))"

section \<open>Fingerprint\<close>

text \<open>
  \<^verbatim>\<open>const input = `${appId}:${normalized}:${screenName || ''}`;\<close>
  An absent screen name and the empty one both give the empty suffix.
\<close>

definition fingerprint_input :: "jsstring \<Rightarrow> jsstring \<Rightarrow> jsstring option \<Rightarrow> jsstring" where
  "fingerprint_input appId description screenName =
     appId @ js '':'' @ normalized description @ js '':'' @
     (case screenName of None \<Rightarrow> [] | Some n \<Rightarrow> n)"

text \<open>
  \<^verbatim>\<open>crypto.createHash('sha256').update(input).digest('hex').substring(0, 64)\<close>
\<close>

definition generateFingerprint :: "jsstring \<Rightarrow> jsstring \<Rightarrow> jsstring option \<Rightarrow> jsstring" where
  "generateFingerprint appId description screenName =
     substring0 64 (sha256_hex (utf8 (fingerprint_input appId description screenName)))"

section \<open>Request values\<close>

text \<open>
  \<open>req.body\<close> is parsed JSON. The fields that the controller tests itself
  (\<open>typeof\<close>, truthiness, \<open>Array.isArray\<close>, \<open>!== undefined\<close>) are JSON values;
  JSON numbers are kept to the integers.
\<close>

datatype jsval =
    JUndefined
  | JNull
  | JBool bool
  | JNum int
  | JStr jsstring
  | JArr "jsval list"
  | JObj "(string \<times> jsval) list"

fun truthy :: "jsval \<Rightarrow> bool" where
  "truthy JUndefined = False"
| "truthy JNull = False"
| "truthy (JBool b) = b"
| "truthy (JNum n) = (n \<noteq> 0)"
| "truthy (JStr s) = (s \<noteq> [])"
| "truthy (JArr xs) = True"
| "truthy (JObj kvs) = True"

text \<open>\<open>!x || typeof x !== 'string'\<close> fails exactly on a non-empty string.\<close>

fun nonempty_string :: "jsval \<Rightarrow> jsstring option" where
  "nonempty_string (JStr s) = (if s = [] then None else Some s)"
| "nonempty_string v = None"

text \<open>\<open>x || null\<close> on an optional string.\<close>

fun or_null :: "'a list option \<Rightarrow> 'a list option" where
  "or_null (Some s) = (if s = [] then None else Some s)"
| "or_null None = None"

section \<open>The table \<open>ghp_bug_reports\<close>\<close>

text \<open>
  One row of the table. The columns are those the controller inserts, plus the ones the
  store assigns (\<open>id\<close>, \<open>created_at\<close>, \<open>updated_at\<close>) and the ones only an update sets.
  Row ids are the store's keys (never empty, so the test \<open>data?.id || null\<close> is the test
  for a row); times are milliseconds.
\<close>

record report =
  id_r :: nat
  app_id :: jsstring
  user_id :: "jsstring option"
  description :: jsstring
  priority :: jsstring
  status :: jsval
  screenshot_url :: "string option"
  screenshot_urls :: "string list option"
  app_version :: "jsstring option"
  build_number :: "jsstring option"
  ios_version :: "jsstring option"
  device_model :: "jsstring option"
  screen_name :: "jsstring option"
  fingerprint :: jsstring
  canonical_id :: "nat option"
  duplicate_count :: int
  fix_status :: jsval
  suggested_fix :: jsval
  claude_analysis :: jsval
  created_at :: int
  updated_at :: int

text \<open>The calls made on the store client, in the order they are issued.\<close>

datatype store_call =
    SelectCanonical jsstring jsstring int
  | InsertReport
  | IncrementDuplicateCount nat
  | UpdateReport nat "(string \<times> jsval) list"

record store =
  rows :: "report list"
  next_id :: nat
  calls :: "store_call list"

text \<open>
  The client answers \<open>{ data, error }\<close> and does not throw. \<open>PGRST116\<close> is the
  error of \<open>.single()\<close> when the result is not exactly one row; any other error is a
  failure of the store, with its message.
\<close>

datatype store_error = PGRST116 | Failure string

fun message :: "store_error \<Rightarrow> string" where
  "message PGRST116 = ''JSON object requested, multiple (or no) rows returned''"
| "message (Failure m) = m"

text \<open>
  What lies outside the program during one request: the clock (milliseconds since the
  epoch), the time zone of the server, whether each store operation fails (with which
  message), and what the object storage answers to an upload (the public URL, or nothing
  when the upload fails). The time zone is the offset of local time from UTC, in
  milliseconds, once as a function of the UTC time and once as a function of the local
  time (where a local time is skipped or repeated at a clock change, the offset before the
  change).
\<close>

record env =
  now :: int
  tza_utc :: "int \<Rightarrow> int"
  tza_local :: "int \<Rightarrow> int"
  select_fault :: "string option"
  insert_fault :: "string option"
  rpc_fault :: "string option"
  update_fault :: "string option"
  storage_upload :: "jsstring \<Rightarrow> jsstring \<Rightarrow> string option"

definition issue :: "store_call \<Rightarrow> store \<Rightarrow> store" where
  "issue c s = s\<lparr>calls := calls s @ [c]\<rparr>"

text \<open>
  The query of \<open>findDuplicate\<close>: \<open>eq fingerprint\<close>, \<open>eq app_id\<close>, \<open>gte created_at\<close>,
  \<open>is canonical_id null\<close>, \<open>order created_at ascending\<close>, \<open>limit 1\<close>, \<open>single\<close>.
\<close>

definition canonical_matches ::
  "jsstring \<Rightarrow> jsstring \<Rightarrow> int \<Rightarrow> report list \<Rightarrow> report list" where
  "canonical_matches fp app since rs =
     filter (\<lambda>r. fingerprint r = fp \<and> app_id r = app \<and> since \<le> created_at r
                 \<and> canonical_id r = None) rs"

definition select_canonical ::
  "env \<Rightarrow> jsstring \<Rightarrow> jsstring \<Rightarrow> int \<Rightarrow> store \<Rightarrow> (store_error + report) \<times> store" where
  "select_canonical e fp app since s =
     (let s' = issue (SelectCanonical fp app since) s
      in case select_fault e of
           Some m \<Rightarrow> (Inl (Failure m), s')
         | None \<Rightarrow>
             (case sort_key created_at (canonical_matches fp app since (rows s)) of
                [] \<Rightarrow> (Inl PGRST116, s')
              | r # rest \<Rightarrow> (Inr r, s')))"

text \<open>
  Modelled from the spec: the table's defaults are not in the sources. The store assigns
  the id (never reused) and both timestamps at creation; the columns that the insert does
  not supply are null.
\<close>

definition insert_report :: "env \<Rightarrow> report \<Rightarrow> store \<Rightarrow> (store_error + report) \<times> store" where
  "insert_report e payload s =
     (let s' = issue InsertReport s
      in case insert_fault e of
           Some m \<Rightarrow> (Inl (Failure m), s')
         | None \<Rightarrow>
             (let r = payload\<lparr>id_r := next_id s, created_at := now e, updated_at := now e\<rparr>
              in (Inr r, s'\<lparr>rows := rows s @ [r], next_id := Suc (next_id s)\<rparr>)))"

text \<open>
  Modelled from the spec: the effect on one row of the statement
  \<open>SET duplicate_count = duplicate_count + 1\<close> for the canonical id, which also refreshes
  the row's update timestamp.
\<close>

definition bump_count :: "int \<Rightarrow> nat \<Rightarrow> report \<Rightarrow> report" where
  "bump_count t cid r =
     (if id_r r = cid then r\<lparr>duplicate_count := duplicate_count r + 1, updated_at := t\<rparr>
      else r)"

text \<open>
  Modelled from the spec: the stored procedure \<open>increment_bug_duplicate_count\<close> is not in
  the sources. It is one atomic statement of the store: the increment above on the row of
  the given id, every other row left as it is. When the call fails no row changes.
\<close>

definition increment_bug_duplicate_count ::
  "env \<Rightarrow> nat \<Rightarrow> store \<Rightarrow> store_error option \<times> store" where
  "increment_bug_duplicate_count e cid s =
     (let s' = issue (IncrementDuplicateCount cid) s
      in case rpc_fault e of
           Some m \<Rightarrow> (Some (Failure m), s')
         | None \<Rightarrow> (None, s'\<lparr>rows := map (bump_count (now e) cid) (rows s)\<rparr>))"

text \<open>
  \<open>.update(updates).eq('id', id).select().single()\<close>. The store writes each named
  column; a column it does not have, or a value of the wrong type for a typed column,
  makes it reject the whole update.
\<close>

fun set_column :: "string \<times> jsval \<Rightarrow> report \<Rightarrow> report option" where
  "set_column (k, v) r =
     (if k = ''status'' then Some (r\<lparr>status := v\<rparr>)
      else if k = ''fix_status'' then Some (r\<lparr>fix_status := v\<rparr>)
      else if k = ''suggested_fix'' then Some (r\<lparr>suggested_fix := v\<rparr>)
      else if k = ''claude_analysis'' then Some (r\<lparr>claude_analysis := v\<rparr>)
      else if k = ''fingerprint'' then
        (case v of JStr x \<Rightarrow> Some (r\<lparr>fingerprint := x\<rparr>) | _ \<Rightarrow> None)
      else if k = ''app_id'' then
        (case v of JStr x \<Rightarrow> Some (r\<lparr>app_id := x\<rparr>) | _ \<Rightarrow> None)
      else if k = ''description'' then
        (case v of JStr x \<Rightarrow> Some (r\<lparr>description := x\<rparr>) | _ \<Rightarrow> None)
      else if k = ''priority'' then
        (case v of JStr x \<Rightarrow> Some (r\<lparr>priority := x\<rparr>) | _ \<Rightarrow> None)
      else if k = ''canonical_id'' then
        (case v of JNull \<Rightarrow> Some (r\<lparr>canonical_id := None\<rparr>)
         | JNum n \<Rightarrow> if 0 \<le> n then Some (r\<lparr>canonical_id := Some (nat n)\<rparr>) else None
         | _ \<Rightarrow> None)
      else if k = ''duplicate_count'' then
        (case v of JNum n \<Rightarrow> Some (r\<lparr>duplicate_count := n\<rparr>) | _ \<Rightarrow> None)
      else if k = ''created_at'' then
        (case v of JNum n \<Rightarrow> Some (r\<lparr>created_at := n\<rparr>) | _ \<Rightarrow> None)
      else if k = ''updated_at'' then
        (case v of JNum n \<Rightarrow> Some (r\<lparr>updated_at := n\<rparr>) | _ \<Rightarrow> None)
      else None)"

fun set_columns :: "(string \<times> jsval) list \<Rightarrow> report \<Rightarrow> report option" where
  "set_columns [] r = Some r"
| "set_columns (kv # kvs) r =
     (case set_column kv r of None \<Rightarrow> None | Some r' \<Rightarrow> set_columns kvs r')"

fun update_rows :: "nat \<Rightarrow> (string \<times> jsval) list \<Rightarrow> report list \<Rightarrow> report list option" where
  "update_rows i kvs [] = Some []"
| "update_rows i kvs (r # rs) =
     (if id_r r = i then
        (case set_columns kvs r of
           None \<Rightarrow> None
         | Some r' \<Rightarrow> map_option ((#) r') (update_rows i kvs rs))
      else map_option ((#) r) (update_rows i kvs rs))"

definition update_by_id ::
  "env \<Rightarrow> nat \<Rightarrow> (string \<times> jsval) list \<Rightarrow> store \<Rightarrow> (store_error + report) \<times> store" where
  "update_by_id e i kvs s =
     (let s' = issue (UpdateReport i kvs) s
      in case update_fault e of
           Some m \<Rightarrow> (Inl (Failure m), s')
         | None \<Rightarrow>
             (case update_rows i kvs (rows s) of
                None \<Rightarrow> (Inl (Failure ''invalid input for column''), s')
              | Some rs \<Rightarrow>
                  (case filter (\<lambda>r. id_r r = i) rs of
                     [r] \<Rightarrow> (Inr r, s'\<lparr>rows := rs\<rparr>)
                   | _ \<Rightarrow> (Inl PGRST116, s'\<lparr>rows := rs\<rparr>))))"

section \<open>The controller\<close>

text \<open>The JSON answers: \<open>res.status(code).json(body)\<close>.\<close>

datatype payload =
    Error string
  | Submitted nat jsval bool "nat option" nat
  | Updated report

datatype response = Json nat payload

text \<open>
  \<^verbatim>\<open>const sevenDaysAgo = new Date(); sevenDaysAgo.setDate(sevenDaysAgo.getDate() - 7);\<close>
  \<open>setDate\<close> works on the local time: it keeps the local time of day and moves the
  local day back by seven, then converts to UTC with the offset of that local time. The
  result is what \<open>toISOString\<close> sends to the store.
\<close>

definition msPerDay :: int where
  "msPerDay = 86400000"

definition sevenDaysAgo :: "env \<Rightarrow> int" where
  "sevenDaysAgo e =
     (let t = now e + tza_utc e (now e);
          newDate = t - 7 * msPerDay
      in newDate - tza_local e newDate)"

definition findDuplicate :: "env \<Rightarrow> jsstring \<Rightarrow> jsstring \<Rightarrow> store \<Rightarrow> nat option \<times> store" where
  "findDuplicate e fp appId s =
     (let (res, s') = select_canonical e fp appId (sevenDaysAgo e) s
      in (case res of Inr data \<Rightarrow> Some (id_r data) | Inl err \<Rightarrow> None, s'))"

definition uploadScreenshot :: "env \<Rightarrow> jsstring \<Rightarrow> jsstring \<Rightarrow> string option" where
  "uploadScreenshot e appId base64Data = storage_upload e appId base64Data"

text \<open>\<open>if (url) screenshotUrls.push(url)\<close>\<close>

definition pushed :: "string option \<Rightarrow> string list" where
  "pushed url = (case url of None \<Rightarrow> [] | Some u \<Rightarrow> if u = [] then [] else [u])"

fun upload_each :: "env \<Rightarrow> jsstring \<Rightarrow> jsval list \<Rightarrow> string list" where
  "upload_each e appId [] = []"
| "upload_each e appId (JStr b # bs) =
     (if b \<noteq> [] then pushed (uploadScreenshot e appId b) else []) @ upload_each e appId bs"
| "upload_each e appId (v # bs) = upload_each e appId bs"

text \<open>
  The body of a submission. The fields that the controller only passes on are typed as
  the route's schema declares them, optional strings.
\<close>

record submit_body =
  appId :: jsval
  body_description :: jsval
  body_priority :: jsval
  screenshotBase64 :: jsval
  screenshotBase64s :: jsval
  appVersion :: "jsstring option"
  buildNumber :: "jsstring option"
  iosVersion :: "jsstring option"
  deviceModel :: "jsstring option"
  screenName :: "jsstring option"

definition upload_screenshots :: "env \<Rightarrow> jsstring \<Rightarrow> submit_body \<Rightarrow> string list" where
  "upload_screenshots e app b =
     (case screenshotBase64s b of
        JArr xs \<Rightarrow> upload_each e app xs
      | _ \<Rightarrow>
          (case screenshotBase64 b of
             JStr x \<Rightarrow> if x \<noteq> [] then pushed (uploadScreenshot e app x) else []
           | _ \<Rightarrow> []))"

text \<open>\<open>!priority || !['low', 'medium', 'high'].includes(priority)\<close>\<close>

fun valid_priority :: "jsval \<Rightarrow> jsstring option" where
  "valid_priority (JStr p) =
     (if p = js ''low'' \<or> p = js ''medium'' \<or> p = js ''high'' then Some p else None)"
| "valid_priority v = None"

text \<open>The object given to \<open>.insert\<close>; the store fills the id and the timestamps.\<close>

definition insert_payload ::
  "jsstring option \<Rightarrow> submit_body \<Rightarrow> jsstring \<Rightarrow> jsstring \<Rightarrow> jsstring \<Rightarrow> jsstring \<Rightarrow>
   nat option \<Rightarrow> string list \<Rightarrow> report" where
  "insert_payload userId b app d p fp existingCanonicalId screenshotUrls =
     \<lparr> id_r = 0,
       app_id = app,
       user_id = or_null userId,
       description = trim d,
       priority = p,
       status = (if existingCanonicalId \<noteq> None then JStr (js ''duplicate'')
                 else JStr (js ''open'')),
       screenshot_url = (case screenshotUrls of [] \<Rightarrow> None | u # us \<Rightarrow> Some u),
       screenshot_urls = (if screenshotUrls = [] then None else Some screenshotUrls),
       app_version = or_null (appVersion b),
       build_number = or_null (buildNumber b),
       ios_version = or_null (iosVersion b),
       device_model = or_null (deviceModel b),
       screen_name = or_null (screenName b),
       fingerprint = fp,
       canonical_id = existingCanonicalId,
       duplicate_count = (if existingCanonicalId \<noteq> None then 0 else 1),
       fix_status = JNull,
       suggested_fix = JNull,
       claude_analysis = JNull,
       created_at = 0,
       updated_at = 0 \<rparr>"

text \<open>The body of \<open>submitBugReport\<close> after the three validations.\<close>

definition submit_valid ::
  "env \<Rightarrow> jsstring option \<Rightarrow> submit_body \<Rightarrow> jsstring \<Rightarrow> jsstring \<Rightarrow> jsstring \<Rightarrow> store \<Rightarrow>
   response \<times> store" where
  "submit_valid e userId b app d p s =
     (let fp = generateFingerprint app d (screenName b);
          (existingCanonicalId, s1) = findDuplicate e fp app s;
          screenshotUrls = upload_screenshots e app b;
          (ins, s2) = insert_report e
             (insert_payload userId b app d p fp existingCanonicalId screenshotUrls) s1
      in case ins of
           Inl err \<Rightarrow> (Json 500 (Error (message err)), s2)
         | Inr data \<Rightarrow>
             (let s3 = (case existingCanonicalId of
                          Some cid \<Rightarrow> snd (increment_bug_duplicate_count e cid s2)
                        | None \<Rightarrow> s2)
              in (Json 201
                    (Submitted (id_r data) (status data) (existingCanonicalId \<noteq> None)
                       existingCanonicalId (length screenshotUrls)),
                  s3)))"

definition submitBugReport ::
  "env \<Rightarrow> jsstring option \<Rightarrow> submit_body \<Rightarrow> store \<Rightarrow> response \<times> store" where
  "submitBugReport e userId b s =
     (case nonempty_string (appId b) of
        None \<Rightarrow> (Json 400 (Error ''appId is required''), s)
      | Some app \<Rightarrow>
          (case nonempty_string (body_description b) of
             None \<Rightarrow> (Json 400 (Error ''description is required (min 5 characters)''), s)
           | Some d \<Rightarrow>
               if length (trim d) < 5
               then (Json 400 (Error ''description is required (min 5 characters)''), s)
               else
                 (case valid_priority (body_priority b) of
                    None \<Rightarrow> (Json 400 (Error ''priority must be low, medium, or high''), s)
                  | Some p \<Rightarrow> submit_valid e userId b app d p s)))"

record update_body =
  body_status :: jsval
  fixStatus :: jsval
  suggestedFix :: jsval
  claudeAnalysis :: jsval

text \<open>
  \<^verbatim>\<open>if (status) updates.status = status;\<close>
  \<^verbatim>\<open>if (fixStatus) updates.fix_status = fixStatus;\<close>
  \<^verbatim>\<open>if (suggestedFix !== undefined) updates.suggested_fix = suggestedFix;\<close>
  \<^verbatim>\<open>if (claudeAnalysis !== undefined) updates.claude_analysis = claudeAnalysis;\<close>
\<close>

definition build_updates :: "update_body \<Rightarrow> (string \<times> jsval) list" where
  "build_updates b =
     (if truthy (body_status b) then [(''status'', body_status b)] else []) @
     (if truthy (fixStatus b) then [(''fix_status'', fixStatus b)] else []) @
     (if suggestedFix b \<noteq> JUndefined then [(''suggested_fix'', suggestedFix b)] else []) @
     (if claudeAnalysis b \<noteq> JUndefined then [(''claude_analysis'', claudeAnalysis b)] else [])"

definition updateBugReport :: "env \<Rightarrow> nat \<Rightarrow> update_body \<Rightarrow> store \<Rightarrow> response \<times> store" where
  "updateBugReport e i b s =
     (let updates = build_updates b
      in if updates = [] then (Json 400 (Error ''No valid fields to update''), s)
         else
           (case update_by_id e i updates s of
              (Inl PGRST116, s') \<Rightarrow> (Json 404 (Error ''Bug report not found''), s')
            | (Inl (Failure m), s') \<Rightarrow> (Json 500 (Error m), s')
            | (Inr data, s') \<Rightarrow> (Json 200 (Updated data), s')))"

section \<open>Predicates of the properties\<close>

text \<open>The text is not empty and its last code unit is white space.\<close>

definition ends_with_space :: "jsstring \<Rightarrow> bool" where
  "ends_with_space s = (s \<noteq> [] \<and> is_space (last s))"

text \<open>
  The start of the resolver's window in words: the local time of now, seven days of 24
  hours earlier on the local clock, read back as UTC.
\<close>

definition window_start :: "env \<Rightarrow> int" where
  "window_start e =
     now e + tza_utc e (now e) - 604800000
     - tza_local e (now e + tza_utc e (now e) - 604800000)"

text \<open>
  The records among which the resolver is to choose: same tenant, canonical, same
  fingerprint, created no earlier than the start of the window.
\<close>

definition window_matches :: "env \<Rightarrow> jsstring \<Rightarrow> jsstring \<Rightarrow> store \<Rightarrow> report set" where
  "window_matches e fp tenant s =
     {r \<in> set (rows s). app_id r = tenant \<and> canonical_id r = None \<and> fingerprint r = fp
                        \<and> window_start e \<le> created_at r}"

text \<open>
  A row for the concrete cases, an environment whose server runs on UTC (no fault, no
  upload), and one whose server runs on the time of New York in 2025: five hours behind
  UTC, four between 9 March 07:00 UTC and 2 November 06:00 UTC.
\<close>

definition a_report :: "nat \<Rightarrow> jsstring \<Rightarrow> jsstring \<Rightarrow> nat option \<Rightarrow> int \<Rightarrow> int \<Rightarrow> report" where
  "a_report i tenant fp c n t =
     \<lparr> id_r = i, app_id = tenant, user_id = None, description = js ''crash on launch'',
       priority = js ''high'',
       status = (if c = None then JStr (js ''open'') else JStr (js ''duplicate'')),
       screenshot_url = None, screenshot_urls = None, app_version = None,
       build_number = None, ios_version = None, device_model = None, screen_name = None,
       fingerprint = fp, canonical_id = c, duplicate_count = n,
       fix_status = JNull, suggested_fix = JNull, claude_analysis = JNull,
       created_at = t, updated_at = t \<rparr>"

definition an_env :: "int \<Rightarrow> env" where
  "an_env t =
     \<lparr> now = t, tza_utc = (\<lambda>u. 0), tza_local = (\<lambda>l. 0),
       select_fault = None, insert_fault = None, rpc_fault = None,
       update_fault = None, storage_upload = (\<lambda>a d. None) \<rparr>"

definition new_york :: "int \<Rightarrow> env" where
  "new_york t =
     (an_env t)
       \<lparr> tza_utc := (\<lambda>u. if 1741503600000 \<le> u \<and> u < 1762063200000
                          then - 14400000 else - 18000000),
         tza_local := (\<lambda>l. if 1741489200000 \<le> l \<and> l < 1762048800000
                            then - 14400000 else - 18000000) \<rparr>"

definition window_store :: store where
  "window_store =
     \<lparr> rows = [a_report 0 (js ''app1'') (js ''f1'') None 1 399999999,
               a_report 1 (js ''app1'') (js ''f1'') None 1 500000000,
               a_report 2 (js ''app1'') (js ''f1'') None 1 400000000,
               a_report 3 (js ''app2'') (js ''f1'') None 1 400000000,
               a_report 4 (js ''app1'') (js ''f1'') (Some 2) 0 400000000],
       next_id = 5, calls = [] \<rparr>"

text \<open>One canonical record, created on 29 October 2025 at 11:30 UTC.\<close>

definition autumn_store :: store where
  "autumn_store =
     \<lparr> rows = [a_report 0 (js ''app1'') (js ''f1'') None 1 1761737400000],
       next_id = 1, calls = [] \<rparr>"

text \<open>
  The update as the specification words it: each of the four fields takes the supplied
  value when one is applied, and keeps its value otherwise; nothing else changes.
\<close>

definition written :: "update_body \<Rightarrow> report \<Rightarrow> report" where
  "written b r =
     r\<lparr> status := (if truthy (body_status b) then body_status b else status r),
        fix_status := (if truthy (fixStatus b) then fixStatus b else fix_status r),
        suggested_fix :=
          (if suggestedFix b \<noteq> JUndefined then suggestedFix b else suggested_fix r),
        claude_analysis :=
          (if claudeAnalysis b \<noteq> JUndefined then claudeAnalysis b else claude_analysis r) \<rparr>"

text \<open>Two rows that agree on every column but the four an update may write.\<close>

definition same_outside_update :: "report \<Rightarrow> report \<Rightarrow> bool" where
  "same_outside_update r r' =
     (r'\<lparr> status := status r, fix_status := fix_status r,
          suggested_fix := suggested_fix r, claude_analysis := claude_analysis r \<rparr> = r)"

definition resolve_update :: update_body where
  "resolve_update =
     \<lparr> body_status = JStr (js ''resolved''), fixStatus = JUndefined,
       suggestedFix = JUndefined, claudeAnalysis = JUndefined \<rparr>"

definition falsy_update :: update_body where
  "falsy_update =
     \<lparr> body_status = JStr [], fixStatus = JNum 0,
       suggestedFix = JStr [], claudeAnalysis = JNull \<rparr>"

definition only_falsy_update :: update_body where
  "only_falsy_update =
     \<lparr> body_status = JStr [], fixStatus = JNum 0,
       suggestedFix = JUndefined, claudeAnalysis = JUndefined \<rparr>"

definition analysed_store :: store where
  "analysed_store =
     \<lparr> rows = [(a_report 7 (js ''app1'') (js ''f1'') None 1 1000)
                 \<lparr>suggested_fix := JStr (js ''guard the call''),
                  claude_analysis := JStr (js ''null dereference'')\<rparr>],
       next_id = 8, calls = [] \<rparr>"

definition one_row_store :: store where
  "one_row_store =
     \<lparr> rows = [a_report 7 (js ''app1'') (js ''f1'') None 1 1000], next_id = 8, calls = [] \<rparr>"

text \<open>Every id in use is below the next one the store will assign.\<close>

definition ids_below :: "store \<Rightarrow> bool" where
  "ids_below s = (\<forall>r \<in> set (rows s). id_r r < next_id s)"

text \<open>The row that a valid submission inserts, as the store returns it.\<close>

definition created_row ::
  "env \<Rightarrow> jsstring option \<Rightarrow> submit_body \<Rightarrow> jsstring \<Rightarrow> jsstring \<Rightarrow> jsstring \<Rightarrow> store \<Rightarrow>
   report" where
  "created_row e userId b app d p s =
     (let fp = generateFingerprint app d (screenName b);
          m = fst (findDuplicate e fp app s)
      in (insert_payload userId b app d p fp m (upload_screenshots e app b))
           \<lparr>id_r := next_id s, created_at := now e, updated_at := now e\<rparr>)"

definition crash_body :: "jsstring \<Rightarrow> jsstring \<Rightarrow> jsstring \<Rightarrow> submit_body" where
  "crash_body tenant d p =
     \<lparr> appId = JStr tenant, body_description = JStr d, body_priority = JStr p,
       screenshotBase64 = JUndefined, screenshotBase64s = JUndefined,
       appVersion = None, buildNumber = None, iosVersion = None, deviceModel = None,
       screenName = None \<rparr>"

definition crash_store :: store where
  "crash_store =
     \<lparr> rows = [a_report 0 (js ''app1'')
                 (generateFingerprint (js ''app1'') (js ''crash on launch'') None) None 1 1000],
       next_id = 1, calls = [] \<rparr>"

definition rpc_down :: env where
  "rpc_down = (an_env 2000)\<lparr>rpc_fault := Some ''connection refused''\<rparr>"

definition lookup_down :: env where
  "lookup_down = (an_env 2000)\<lparr>select_fault := Some ''connection refused''\<rparr>"

text \<open>
  No chain: a canonical id, where set, is not the row's own id and is the id of a row of
  the same tenant that is itself canonical.
\<close>

definition chain_free :: "report list \<Rightarrow> bool" where
  "chain_free rs =
     (\<forall>r \<in> set rs.
        case canonical_id r of
          None \<Rightarrow> True
        | Some c \<Rightarrow>
            c \<noteq> id_r r
            \<and> (\<exists>k \<in> set rs. id_r k = c \<and> app_id k = app_id r \<and> canonical_id k = None))"

definition no_chain :: "store \<Rightarrow> bool" where
  "no_chain s = chain_free (rows s)"

definition ids_unique :: "store \<Rightarrow> bool" where
  "ids_unique s = distinct (map id_r (rows s))"

definition empty_store :: "nat \<Rightarrow> store" where
  "empty_store n = \<lparr> rows = [], next_id = n, calls = [] \<rparr>"

text \<open>
  The stores that sequences of submissions and updates produce from an empty table,
  whatever the requests, the clock, the uploads and the failures of the store.
\<close>

inductive reachable :: "store \<Rightarrow> bool" where
  init: "reachable (empty_store n)"
| submit: "reachable s \<Longrightarrow> reachable (snd (submitBugReport e u b s))"
| update: "reachable s \<Longrightarrow> reachable (snd (updateBugReport e i b s))"

text \<open>
  The canonical records of a tenant and fingerprint, and the records that point at a
  given id.
\<close>

definition canonicals_of :: "jsstring \<Rightarrow> jsstring \<Rightarrow> report list \<Rightarrow> report list" where
  "canonicals_of tenant fp rs =
     filter (\<lambda>r. app_id r = tenant \<and> fingerprint r = fp \<and> canonical_id r = None) rs"

definition duplicates_of :: "nat \<Rightarrow> report list \<Rightarrow> report list" where
  "duplicates_of cid rs = filter (\<lambda>r. canonical_id r = Some cid) rs"

text \<open>
  The operations that write to the table, and a sequential execution: each operation
  runs on the store that the previous one left.
\<close>

datatype operation =
    Submit env "jsstring option" submit_body
  | Update env nat update_body

fun run_op :: "operation \<Rightarrow> store \<Rightarrow> store" where
  "run_op (Submit e u b) s = snd (submitBugReport e u b s)"
| "run_op (Update e i b) s = snd (updateBugReport e i b s)"

fun run :: "operation list \<Rightarrow> store \<Rightarrow> store" where
  "run [] s = s"
| "run (x # xs) s = run xs (run_op x s)"

fun op_env :: "operation \<Rightarrow> env" where
  "op_env (Submit e u b) = e"
| "op_env (Update e i b) = e"

text \<open>
  The tenant and the fingerprint of a submission that passes the validations (nothing for
  one that is rejected).
\<close>

definition submission_key :: "submit_body \<Rightarrow> (jsstring \<times> jsstring) option" where
  "submission_key b =
     (case nonempty_string (appId b) of
        None \<Rightarrow> None
      | Some app \<Rightarrow>
          (case nonempty_string (body_description b) of
             None \<Rightarrow> None
           | Some d \<Rightarrow>
               if 5 \<le> length (trim d) \<and> valid_priority (body_priority b) \<noteq> None
               then Some (app, generateFingerprint app d (screenName b))
               else None))"

text \<open>
  A submission of the given tenant that passes the validations, has the given
  fingerprint, and during which no store operation fails; and an operation that is no
  submission of that tenant and fingerprint (an update, a rejected submission, a
  submission of another tenant or fingerprint, whether store operations fail or not).
\<close>

definition counted_op :: "jsstring \<Rightarrow> jsstring \<Rightarrow> operation \<Rightarrow> bool" where
  "counted_op tenant fp x =
     (case x of
        Submit e u b \<Rightarrow>
          select_fault e = None \<and> insert_fault e = None \<and> rpc_fault e = None
          \<and> submission_key b = Some (tenant, fp)
      | Update e i b \<Rightarrow> False)"

definition other_op :: "jsstring \<Rightarrow> jsstring \<Rightarrow> operation \<Rightarrow> bool" where
  "other_op tenant fp x =
     (case x of
        Submit e u b \<Rightarrow> submission_key b \<noteq> Some (tenant, fp)
      | Update e i b \<Rightarrow> True)"

text \<open>
  After \<open>k\<close> submissions of one report: one canonical record, created at \<open>t1\<close> with id
  \<open>cid\<close>, counting \<open>k\<close>, and \<open>k - 1\<close> records pointing at it.
\<close>

definition counted :: "jsstring \<Rightarrow> jsstring \<Rightarrow> int \<Rightarrow> nat \<Rightarrow> nat \<Rightarrow> store \<Rightarrow> bool" where
  "counted tenant fp t1 cid k s =
     (ids_below s \<and> ids_unique s \<and> no_chain s
      \<and> (\<exists>c. canonicals_of tenant fp (rows s) = [c] \<and> id_r c = cid \<and> created_at c = t1
               \<and> duplicate_count c = int k)
      \<and> Suc (length (duplicates_of cid (rows s))) = k)"

text \<open>
  Three submissions of one report by one tenant, on a server on UTC, the third exactly
  seven days after the first; between them a submission of another tenant and an update.
\<close>

definition three_crashes :: "operation list" where
  "three_crashes =
     [Submit (an_env 1000) None
        (crash_body (js ''app1'') (js ''Crash on launch!!'') (js ''high'')),
      Submit (an_env 1500) None
        (crash_body (js ''app2'') (js ''Crash on launch!!'') (js ''high'')),
      Submit (an_env 2000) None
        (crash_body (js ''app1'') (js ''crash on launch'') (js ''low'')),
      Update (an_env 3000) 0 resolve_update,
      Submit (an_env 604801000) None
        (crash_body (js ''app1'') (js ''CRASH ON LAUNCH'') (js ''medium''))]"

text \<open>
  Two submissions of one report by one tenant on a server on the time of New York: on
  5 March 2025 at 12:00 UTC and on 12 March 2025 at 11:30 UTC, six days, 23 hours and 30
  minutes later. The clocks went forward in between.
\<close>

definition spring_crashes :: "operation list" where
  "spring_crashes =
     [Submit (new_york 1741176000000) None
        (crash_body (js ''app1'') (js ''crash on launch'') (js ''high'')),
      Submit (new_york 1741779000000) None
        (crash_body (js ''app1'') (js ''crash on launch'') (js ''high''))]"


section \<open>Texts as JavaScript strings\<close>

lemma unat_js_unit: "unat (of_nat (of_char c) :: 16 word) = of_char c"
proof -
  have "(of_char c :: nat) mod 256 < 256" by (rule mod_less_divisor) simp
  then have "(of_char c :: nat) < 256" by (simp only: of_char_mod_256)
  then have lt: "(of_char c :: nat) < 65536" by linarith
  have "unat (of_nat (of_char c) :: 16 word) = of_char c mod 2 ^ LENGTH(16)"
    by (rule unat_of_nat)
  then show ?thesis using lt by simp
qed

lemma js_unit_inject:
  "(of_nat (of_char c) :: 16 word) = of_nat (of_char d) \<longleftrightarrow> c = d"
proof
  assume "(of_nat (of_char c) :: 16 word) = of_nat (of_char d)"
  then have "unat (of_nat (of_char c) :: 16 word) = unat (of_nat (of_char d) :: 16 word)"
    by simp
  then have "(of_char c :: nat) = of_char d" by (simp only: unat_js_unit)
  then show "c = d" by simp
qed simp

lemma js_Nil [simp]: "js [] = []"
  by (simp add: js_def)

lemma js_eq_Nil [simp]: "js s = [] \<longleftrightarrow> s = []"
  by (simp add: js_def)

lemma js_inject [simp]: "js a = js b \<longleftrightarrow> a = b"
proof
  assume "js a = js b"
  then show "a = b"
  proof (induction a arbitrary: b)
    case Nil
    then show ?case by (simp add: js_def)
  next
    case (Cons x xs)
    then obtain y ys where b: "b = y # ys" by (cases b) (auto simp: js_def)
    with Cons.prems have "(of_nat (of_char x) :: 16 word) = of_nat (of_char y)" "js xs = js ys"
      by (simp_all add: js_def)
    then show ?case using Cons.IH b by (simp add: js_unit_inject)
  qed
qed simp

lemma length_js [simp]: "length (js s) = length s"
  by (simp add: js_def)

section \<open>Normalization\<close>

lemma lowered_kept_id: "is_kept c \<Longrightarrow> lowered_kept c = [c]"
proof -
  assume kept: "is_kept c"
  then have "\<not> (65 \<le> unat c \<and> unat c \<le> 90)" "unat c \<noteq> 304" "unat c \<noteq> 8490"
    unfolding is_kept_def is_space_def Let_def by linarith+
  then show ?thesis using kept by (simp add: lowered_kept_def Let_def)
qed

lemma lowered_kept_class: "x \<in> set (lowered_kept c) \<Longrightarrow> is_kept x"
proof -
  assume x: "x \<in> set (lowered_kept c)"
  have up: "is_kept (of_nat (n + 32))" if "65 \<le> n" "n \<le> 90" for n :: nat
  proof -
    have "unat (of_nat (n + 32) :: 16 word) = (n + 32) mod 2 ^ LENGTH(16)"
      by (rule unat_of_nat)
    then have "unat (of_nat (n + 32) :: 16 word) = n + 32" using that by simp
    then show ?thesis using that by (simp add: is_kept_def Let_def)
  qed
  have i: "is_kept (105 :: 16 word)" and k: "is_kept (107 :: 16 word)"
    by (simp_all add: is_kept_def Let_def)
  from x have "(65 \<le> unat c \<and> unat c \<le> 90 \<and> x = of_nat (unat c + 32))
      \<or> x = 105 \<or> x = 107 \<or> (is_kept c \<and> x = c)"
    by (simp add: lowered_kept_def Let_def split: if_splits)
  then show ?thesis using up[of "unat c"] i k by blast
qed

lemma lower_and_strip_kept: "\<forall>c \<in> set s. is_kept c \<Longrightarrow> lower_and_strip s = s"
  by (induction s) (simp_all add: lower_and_strip_def lowered_kept_id)

lemma lower_and_strip_class: "c \<in> set (lower_and_strip s) \<Longrightarrow> is_kept c"
  by (auto simp: lower_and_strip_def dest: lowered_kept_class)

lemma trimEnd_prefix: "s = trimEnd s @ rev (takeWhile is_space (rev s))"
proof -
  have "trimEnd s @ rev (takeWhile is_space (rev s))
        = rev (takeWhile is_space (rev s) @ dropWhile is_space (rev s))"
    by (simp only: trimEnd_def rev_append)
  also have "\<dots> = rev (rev s)" by (simp only: takeWhile_dropWhile_id)
  finally show ?thesis by simp
qed

lemma set_trimEnd: "set (trimEnd s) \<subseteq> set s"
  by (metis trimEnd_prefix set_append Un_upper1)

lemma set_trim: "set (trim s) \<subseteq> set s"
  unfolding trim_def trimStart_def using set_trimEnd set_dropWhileD by fastforce

lemma normalized_kept: "c \<in> set (normalized s) \<Longrightarrow> is_kept c"
proof -
  assume "c \<in> set (normalized s)"
  then have "c \<in> set (trim (lower_and_strip s))"
    unfolding normalized_def substring0_def by (rule in_set_takeD)
  then have "c \<in> set (lower_and_strip s)" using set_trim by blast
  then show ?thesis by (rule lower_and_strip_class)
qed

lemma hd_trimEnd: "trimEnd s \<noteq> [] \<Longrightarrow> hd (trimEnd s) = hd s"
  by (metis trimEnd_prefix hd_append2)

lemma hd_trim: "trim s \<noteq> [] \<Longrightarrow> \<not> is_space (hd (trim s))"
proof -
  assume ne: "trim s \<noteq> []"
  then have "hd (trim s) = hd (dropWhile is_space s)"
    unfolding trim_def trimStart_def by (rule hd_trimEnd)
  moreover have "dropWhile is_space s \<noteq> []"
    using ne by (cases "dropWhile is_space s") (simp_all add: trim_def trimStart_def trimEnd_def)
  ultimately show ?thesis by (simp add: hd_dropWhile)
qed

lemma hd_normalized: "normalized s \<noteq> [] \<Longrightarrow> \<not> is_space (hd (normalized s))"
proof -
  let ?u = "trim (lower_and_strip s)"
  assume "normalized s \<noteq> []"
  then have ne: "?u \<noteq> []" by (auto simp: normalized_def substring0_def)
  have "hd (normalized s) = hd ?u" by (simp add: normalized_def substring0_def hd_take)
  then show ?thesis using hd_trim[OF ne] by simp
qed

lemma trim_id: "t = [] \<or> (\<not> is_space (hd t) \<and> \<not> is_space (last t)) \<Longrightarrow> trim t = t"
proof (cases t)
  case Nil
  then show ?thesis by (simp add: trim_def trimStart_def trimEnd_def)
next
  case (Cons a u)
  assume "t = [] \<or> (\<not> is_space (hd t) \<and> \<not> is_space (last t))"
  with Cons have h: "\<not> is_space a" and l: "\<not> is_space (last t)" by auto
  have 1: "trimStart t = t" using Cons h by (simp add: trimStart_def)
  have "rev t \<noteq> []" using Cons by simp
  then have "dropWhile is_space (rev t) = rev t"
    using l by (cases "rev t") (auto simp: last_rev[symmetric] hd_rev)
  then show ?thesis using 1 by (simp add: trim_def trimEnd_def)
qed

lemma length_trimEnd_less: "s \<noteq> [] \<Longrightarrow> is_space (last s) \<Longrightarrow> length (trimEnd s) < length s"
proof -
  assume a: "s \<noteq> []" "is_space (last s)"
  then have "rev s \<noteq> []" "is_space (hd (rev s))" by (simp_all add: hd_rev)
  then have "length (dropWhile is_space (rev s)) < length (rev s)"
    by (cases "rev s") (auto simp: le_imp_less_Suc length_dropWhile_le)
  then show ?thesis by (simp add: trimEnd_def)
qed

lemma length_normalized: "length (normalized s) \<le> 200"
  by (simp add: normalized_def substring0_def)

lemmas text_eval =
  normalized_def lower_and_strip_def lowered_kept_def is_kept_def is_space_def
  trim_def trimStart_def trimEnd_def substring0_def js_def Let_def

lemma normalized_twice:
  "normalized (normalized s) = normalized s \<longleftrightarrow> \<not> ends_with_space (normalized s)"
proof -
  let ?t = "normalized s"
  have kept: "\<forall>c \<in> set ?t. is_kept c" using normalized_kept by blast
  have eq: "normalized ?t = take 200 (trim ?t)"
    using kept by (simp add: normalized_def[of ?t] substring0_def lower_and_strip_kept)
  show ?thesis
  proof (cases "ends_with_space ?t")
    case False
    then have "?t = [] \<or> (\<not> is_space (hd ?t) \<and> \<not> is_space (last ?t))"
      using hd_normalized by (auto simp: ends_with_space_def)
    then have "trim ?t = ?t" by (rule trim_id)
    then show ?thesis using False eq length_normalized by simp
  next
    case True
    then have ne: "?t \<noteq> []" and sp: "is_space (last ?t)" by (simp_all add: ends_with_space_def)
    have "trimStart ?t = ?t" using ne hd_normalized[OF ne] by (cases ?t) (auto simp: trimStart_def)
    then have "trim ?t = trimEnd ?t" by (simp add: trim_def)
    then have "length (trim ?t) < length ?t" using length_trimEnd_less[OF ne sp] by simp
    then have "length (normalized ?t) < length ?t" using eq by simp
    then show ?thesis using True by auto
  qed
qed

lemma normalized_long:
  "normalized (js (replicate 199 CHR ''a'' @ '' b'')) = replicate 199 97 @ [32]"
proof -
  let ?s = "replicate 199 (97 :: 16 word) @ [32, 98]"
  have s: "js (replicate 199 CHR ''a'' @ '' b'') = ?s" by (simp add: js_def)
  have units: "is_kept (97 :: 16 word)" "is_kept (32 :: 16 word)" "is_kept (98 :: 16 word)"
    "\<not> is_space (97 :: 16 word)" "\<not> is_space (98 :: 16 word)"
    by (simp_all add: is_kept_def is_space_def Let_def)
  have "\<forall>c \<in> set ?s. is_kept c" using units(1-3) by auto
  then have 1: "lower_and_strip ?s = ?s" by (rule lower_and_strip_kept)
  have "hd ?s = 97" by (simp add: hd_append)
  moreover have "last ?s = 98" by simp
  ultimately have "?s = [] \<or> (\<not> is_space (hd ?s) \<and> \<not> is_space (last ?s))"
    using units(4,5) by simp
  then have 2: "trim ?s = ?s" by (rule trim_id)
  show ?thesis by (simp add: s normalized_def 1 2 substring0_def)
qed

text \<open>
  C6 (as found in the code). Normalizing an already normalized description is not always
  a no-op: the cut at 200 characters comes after the trim, so it can leave white space at
  the end, which a second normalization trims away. Here the description is 199 letters,
  a space and one more letter.
\<close>

theorem normalized_not_idempotent:
  "normalized (normalized (js (replicate 199 CHR ''a'' @ '' b'')))
   \<noteq> normalized (js (replicate 199 CHR ''a'' @ '' b''))"
proof -
  have "ends_with_space (normalized (js (replicate 199 CHR ''a'' @ '' b'')))"
    by (simp add: normalized_long ends_with_space_def is_space_def Let_def)
  then show ?thesis by (simp add: normalized_twice)
qed

text \<open>
  C6 (amended). For every description \<open>s\<close>, normalizing the normalized text gives it back
  exactly when the normalized text does not end in white space.
\<close>

theorem normalized_idempotent_iff:
  "normalized (normalized s) = normalized s \<longleftrightarrow> \<not> ends_with_space (normalized s)"
  by (rule normalized_twice)

lemma crash_texts:
  "trim (js ''Crash on launch!!'') = js ''Crash on launch!!''"
  "trim (js ''CRASH ON LAUNCH'') = js ''CRASH ON LAUNCH''"
  "normalized (js ''Crash on launch!!'') = js ''crash on launch''"
  "normalized (js ''crash on launch'') = js ''crash on launch''"
  "normalized (js ''CRASH ON LAUNCH'') = js ''crash on launch''"
  "trim (js ''crash on launch'') = js ''crash on launch''"
  by (simp_all add: text_eval)

theorem normalized_idempotent_witness:
  "\<not> ends_with_space (normalized (js ''Crash on launch!!''))
   \<and> normalized (normalized (js ''Crash on launch!!'')) = normalized (js ''Crash on launch!!'')"
proof -
  have h: "\<not> ends_with_space (normalized (js ''Crash on launch!!''))"
    by (simp add: crash_texts(3) ends_with_space_def) (simp add: is_space_def js_def Let_def)
  show ?thesis using h normalized_idempotent_iff [of "js ''Crash on launch!!''"] by simp
qed

section \<open>The resolver\<close>

lemma sevenDaysAgo_window: "sevenDaysAgo e = window_start e"
  by (simp add: sevenDaysAgo_def window_start_def msPerDay_def Let_def)

lemma sort_key_hd_least:
  "sort_key f xs = y # ys \<Longrightarrow> y \<in> set xs \<and> (\<forall>x \<in> set xs. f y \<le> f x)"
proof -
  assume a: "sort_key f xs = y # ys"
  have "set (sort_key f xs) = set xs" by simp
  then have s: "set xs = insert y (set ys)" using a by simp
  have "sorted (map f (sort_key f xs))" by simp
  then have "\<forall>x \<in> set ys. f y \<le> f x" using a by simp
  then show ?thesis using s by auto
qed

lemma set_canonical_matches:
  "set (canonical_matches fp tenant (sevenDaysAgo e) (rows s)) = window_matches e fp tenant s"
  by (auto simp: canonical_matches_def window_matches_def sevenDaysAgo_window)

lemma findDuplicate_window:
  assumes "select_fault e = None"
  shows "(window_matches e fp tenant s = {} \<longrightarrow> fst (findDuplicate e fp tenant s) = None)
       \<and> (window_matches e fp tenant s \<noteq> {} \<longrightarrow>
            (\<exists>r \<in> window_matches e fp tenant s.
               fst (findDuplicate e fp tenant s) = Some (id_r r)
               \<and> (\<forall>r' \<in> window_matches e fp tenant s. created_at r \<le> created_at r')))
       \<and> rows (snd (findDuplicate e fp tenant s)) = rows s"
proof -
  let ?ms = "canonical_matches fp tenant (sevenDaysAgo e) (rows s)"
  have set_ms: "set ?ms = window_matches e fp tenant s" by (rule set_canonical_matches)
  show ?thesis
  proof (cases "sort_key created_at ?ms")
    case Nil
    then have "set (sort_key created_at ?ms) = {}" by simp
    then have "window_matches e fp tenant s = {}" using set_ms by simp
    moreover have "findDuplicate e fp tenant s
                   = (None, issue (SelectCanonical fp tenant (sevenDaysAgo e)) s)"
      using assms Nil by (simp add: findDuplicate_def select_canonical_def)
    ultimately show ?thesis by (simp add: issue_def)
  next
    case (Cons r rest)
    from sort_key_hd_least[OF Cons]
    have r: "r \<in> window_matches e fp tenant s"
      and least: "\<forall>r' \<in> window_matches e fp tenant s. created_at r \<le> created_at r'"
      using set_ms by auto
    have "findDuplicate e fp tenant s
          = (Some (id_r r), issue (SelectCanonical fp tenant (sevenDaysAgo e)) s)"
      using assms Cons by (simp add: findDuplicate_def select_canonical_def)
    then show ?thesis using r least by (auto simp: issue_def)
  qed
qed

lemma sevenDaysAgo_new_york:
  "sevenDaysAgo (new_york 1762344000000) = 1761735600000"
  "sevenDaysAgo (new_york 1741779000000) = 1741177800000"
  "sevenDaysAgo (new_york 1741176000000) = 1740571200000"
  by (simp_all add: sevenDaysAgo_def new_york_def an_env_def msPerDay_def Let_def)

lemma sevenDaysAgo_utc: "sevenDaysAgo (an_env t) = t - 604800000"
  by (simp add: sevenDaysAgo_def an_env_def msPerDay_def Let_def)

text \<open>
  C5 (as found in the code). The window does not always start seven days of 24 hours
  before now. The server runs on the time of New York, now is 5 November 2025, 12:00 UTC,
  three days after the clocks went back; the one canonical record of the tenant and
  fingerprint was created seven days and 30 minutes before now. The resolver returns it.
\<close>

theorem window_not_seven_days:
  "map id_r (rows autumn_store) = [0]
   \<and> map created_at (rows autumn_store) = [1761737400000]
   \<and> (1761737400000 :: int) < now (new_york 1762344000000) - 604800000
   \<and> fst (findDuplicate (new_york 1762344000000) (js ''f1'') (js ''app1'') autumn_store)
       = Some 0"
proof -
  have e: "select_fault (new_york 1762344000000) = None" "now (new_york 1762344000000) = 1762344000000"
    by (simp_all add: new_york_def an_env_def)
  have "fst (findDuplicate (new_york 1762344000000) (js ''f1'') (js ''app1'') autumn_store)
        = Some 0"
    by (simp add: findDuplicate_def select_canonical_def canonical_matches_def
        sevenDaysAgo_new_york(1) e(1) autumn_store_def a_report_def issue_def)
  then show ?thesis by (simp add: e(2) autumn_store_def a_report_def)
qed

text \<open>
  C5 (amended). When the lookup does not fail, \<open>findDuplicate\<close> answers no match if no
  record of the tenant is canonical, has the fingerprint and was created at or after the
  start of the window; otherwise it answers the id of such a record whose creation time
  is the least among them. The window starts at the instant that has, on the server's
  clock, the local time of day of now seven calendar days earlier; that is now minus
  seven days of 24 hours when the server's offset from UTC is the same at both instants.
  A record created exactly at the start is among them, one created a millisecond earlier
  is not. The lookup leaves the rows as they are.
\<close>

theorem findDuplicate_contract:
  assumes "select_fault e = None"
  shows "(window_matches e fp tenant s = {} \<longrightarrow> fst (findDuplicate e fp tenant s) = None)
       \<and> (window_matches e fp tenant s \<noteq> {} \<longrightarrow>
            (\<exists>r \<in> window_matches e fp tenant s.
               fst (findDuplicate e fp tenant s) = Some (id_r r)
               \<and> (\<forall>r' \<in> window_matches e fp tenant s. created_at r \<le> created_at r')))
       \<and> (tza_local e (now e + tza_utc e (now e) - 604800000) = tza_utc e (now e) \<longrightarrow>
            window_start e = now e - 604800000)
       \<and> rows (snd (findDuplicate e fp tenant s)) = rows s"
  using findDuplicate_window[OF assms, of fp tenant s] by (simp add: window_start_def)

lemma window_store_eval:
  "fst (findDuplicate (an_env 1004800000) (js ''f1'') (js ''app1'') window_store) = Some 2"
proof -
  have e: "select_fault (an_env 1004800000) = None" by (simp add: an_env_def)
  show ?thesis
    by (simp add: findDuplicate_def select_canonical_def canonical_matches_def window_store_def
        a_report_def sevenDaysAgo_utc e issue_def)
qed

theorem findDuplicate_contract_witness:
  "select_fault (an_env 1004800000) = None
   \<and> window_start (an_env 1004800000) = 400000000
   \<and> window_matches (an_env 1004800000) (js ''f1'') (js ''app1'') window_store \<noteq> {}
   \<and> fst (findDuplicate (an_env 1004800000) (js ''f1'') (js ''app1'') window_store) = Some 2
   \<and> (\<exists>r \<in> window_matches (an_env 1004800000) (js ''f1'') (js ''app1'') window_store.
         fst (findDuplicate (an_env 1004800000) (js ''f1'') (js ''app1'') window_store)
         = Some (id_r r)
         \<and> (\<forall>r' \<in> window_matches (an_env 1004800000) (js ''f1'') (js ''app1'') window_store.
               created_at r \<le> created_at r'))"
proof -
  have h: "select_fault (an_env 1004800000) = None" by (simp add: an_env_def)
  have w: "window_start (an_env 1004800000) = 400000000"
    by (simp add: window_start_def an_env_def)
  have "a_report 2 (js ''app1'') (js ''f1'') None 1 400000000
          \<in> window_matches (an_env 1004800000) (js ''f1'') (js ''app1'') window_store"
    by (simp add: window_matches_def window_store_def a_report_def w)
  then have ne: "window_matches (an_env 1004800000) (js ''f1'') (js ''app1'') window_store \<noteq> {}"
    by blast
  show ?thesis
    using h w ne window_store_eval
      findDuplicate_contract [OF h, of "js ''f1''" "js ''app1''" window_store]
    by blast
qed

section \<open>Update\<close>

lemma set_columns_build_updates: "set_columns (build_updates b) r = Some (written b r)"
  by (simp add: build_updates_def written_def)

lemma update_rows_build_updates:
  "update_rows i (build_updates b) rs
   = Some (map (\<lambda>r. if id_r r = i then written b r else r) rs)"
  by (induction rs) (simp_all add: set_columns_build_updates)

lemma build_updates_empty:
  "build_updates b = [] \<longleftrightarrow>
     \<not> truthy (body_status b) \<and> \<not> truthy (fixStatus b)
     \<and> suggestedFix b = JUndefined \<and> claudeAnalysis b = JUndefined"
  by (simp add: build_updates_def)

lemma updateBugReport_rows:
  assumes "updateBugReport e i b s = (resp, s')"
  shows "rows s' = rows s \<or> rows s' = map (\<lambda>r. if id_r r = i then written b r else r) (rows s)"
  using assms
  by (auto simp: updateBugReport_def update_by_id_def issue_def update_rows_build_updates Let_def
      split: if_splits option.splits list.splits prod.splits sum.splits store_error.splits)


lemma same_outside_update_refl: "same_outside_update r r"
  by (simp add: same_outside_update_def)

lemma same_outside_update_written: "same_outside_update r (written b r)"
  by (simp add: same_outside_update_def written_def)

lemma same_outside_update_fields:
  assumes "same_outside_update r r'"
  shows "id_r r' = id_r r" and "app_id r' = app_id r" and "fingerprint r' = fingerprint r"
    and "canonical_id r' = canonical_id r" and "duplicate_count r' = duplicate_count r"
    and "created_at r' = created_at r"
proof -
  let ?r = "r'\<lparr> status := status r, fix_status := fix_status r,
          suggested_fix := suggested_fix r, claude_analysis := claude_analysis r \<rparr>"
  have eq: "?r = r" using assms by (simp add: same_outside_update_def)
  have "id_r ?r = id_r r'" "app_id ?r = app_id r'" "fingerprint ?r = fingerprint r'"
    "canonical_id ?r = canonical_id r'" "duplicate_count ?r = duplicate_count r'"
    "created_at ?r = created_at r'" by simp_all
  then show "id_r r' = id_r r" and "app_id r' = app_id r" and "fingerprint r' = fingerprint r"
    and "canonical_id r' = canonical_id r" and "duplicate_count r' = duplicate_count r"
    and "created_at r' = created_at r"
    by (simp_all only: eq)
qed

lemma updateBugReport_next_id:
  assumes "updateBugReport e i b s = (resp, s')"
  shows "next_id s' = next_id s"
  using assms
  by (auto simp: updateBugReport_def update_by_id_def issue_def update_rows_build_updates Let_def
      split: if_splits option.splits list.splits prod.splits sum.splits store_error.splits)

lemma updateBugReport_no_fields:
  "build_updates b = [] \<Longrightarrow>
   updateBugReport e i b s = (Json 400 (Error ''No valid fields to update''), s)"
  by (simp add: updateBugReport_def)

lemma updateBugReport_not_found:
  assumes "\<forall>r \<in> set (rows s). id_r r \<noteq> i" and "build_updates b \<noteq> []"
    and "update_fault e = None"
  shows "updateBugReport e i b s
         = (Json 404 (Error ''Bug report not found''), issue (UpdateReport i (build_updates b)) s)"
proof -
  have m: "map (\<lambda>r. if id_r r = i then written b r else r) (rows s) = rows s"
    using assms(1) by (simp add: map_idI)
  have f: "filter (\<lambda>r. id_r r = i) (rows s) = []"
    using assms(1) by (simp add: filter_empty_conv)
  show ?thesis
    using assms(2,3)
    by (simp add: updateBugReport_def update_by_id_def update_rows_build_updates m f issue_def)
qed

lemma updateBugReport_applied:
  assumes "updateBugReport e i b s = (resp, s')" and "update_fault e = None"
    and "build_updates b \<noteq> []"
  shows "rows s' = map (\<lambda>r. if id_r r = i then written b r else r) (rows s)"
  using assms
  by (auto simp: updateBugReport_def update_by_id_def issue_def update_rows_build_updates Let_def
      split: if_splits option.splits list.splits prod.splits sum.splits store_error.splits)

text \<open>
  C9. Whatever an update answers, it leaves the number of rows and every row of another
  id as they are, and in the addressed row it leaves every column other than
  \<open>status\<close>, \<open>fix_status\<close>, \<open>suggested_fix\<close> and \<open>claude_analysis\<close> unchanged (so the
  fingerprint, the canonical id and the duplicate count), and of these four each one that
  the request does not supply. A request that supplies none of the four is answered 400
  and the store is not touched. A request for an id that no row has, with a field to
  write and the store answering, is answered 404 and no row changes.
\<close>

theorem update_frame:
  assumes "updateBugReport e i b s = (resp, s')"
  shows "length (rows s') = length (rows s)
       \<and> next_id s' = next_id s
       \<and> (\<forall>k < length (rows s).
            same_outside_update (rows s ! k) (rows s' ! k)
          \<and> fingerprint (rows s' ! k) = fingerprint (rows s ! k)
          \<and> canonical_id (rows s' ! k) = canonical_id (rows s ! k)
          \<and> duplicate_count (rows s' ! k) = duplicate_count (rows s ! k)
          \<and> (id_r (rows s ! k) \<noteq> i \<longrightarrow> rows s' ! k = rows s ! k)
          \<and> (body_status b = JUndefined \<longrightarrow> status (rows s' ! k) = status (rows s ! k))
          \<and> (fixStatus b = JUndefined \<longrightarrow> fix_status (rows s' ! k) = fix_status (rows s ! k))
          \<and> (suggestedFix b = JUndefined \<longrightarrow>
                suggested_fix (rows s' ! k) = suggested_fix (rows s ! k))
          \<and> (claudeAnalysis b = JUndefined \<longrightarrow>
                claude_analysis (rows s' ! k) = claude_analysis (rows s ! k)))
       \<and> (body_status b = JUndefined \<and> fixStatus b = JUndefined
          \<and> suggestedFix b = JUndefined \<and> claudeAnalysis b = JUndefined \<longrightarrow>
            resp = Json 400 (Error ''No valid fields to update'') \<and> s' = s)
       \<and> ((\<forall>r \<in> set (rows s). id_r r \<noteq> i) \<and> build_updates b \<noteq> []
          \<and> update_fault e = None \<longrightarrow>
            resp = Json 404 (Error ''Bug report not found'') \<and> rows s' = rows s)"
proof -
  let ?w = "\<lambda>r. if id_r r = i then written b r else r"
  from updateBugReport_rows[OF assms]
  have rows': "rows s' = rows s \<or> rows s' = map ?w (rows s)" .
  then have len: "length (rows s') = length (rows s)" by auto
  have row: "rows s' ! k = rows s ! k \<or> rows s' ! k = ?w (rows s ! k)"
    if "k < length (rows s)" for k
    using rows' that by auto
  have per_row: "same_outside_update (rows s ! k) (rows s' ! k)
          \<and> fingerprint (rows s' ! k) = fingerprint (rows s ! k)
          \<and> canonical_id (rows s' ! k) = canonical_id (rows s ! k)
          \<and> duplicate_count (rows s' ! k) = duplicate_count (rows s ! k)
          \<and> (id_r (rows s ! k) \<noteq> i \<longrightarrow> rows s' ! k = rows s ! k)
          \<and> (body_status b = JUndefined \<longrightarrow> status (rows s' ! k) = status (rows s ! k))
          \<and> (fixStatus b = JUndefined \<longrightarrow> fix_status (rows s' ! k) = fix_status (rows s ! k))
          \<and> (suggestedFix b = JUndefined \<longrightarrow>
                suggested_fix (rows s' ! k) = suggested_fix (rows s ! k))
          \<and> (claudeAnalysis b = JUndefined \<longrightarrow>
                claude_analysis (rows s' ! k) = claude_analysis (rows s ! k))"
    if k: "k < length (rows s)" for k
  proof -
    let ?r = "rows s ! k" and ?r' = "rows s' ! k"
    from row[OF k] have c: "?r' = ?r \<or> ?r' = written b ?r" by (auto split: if_splits)
    have far: "id_r ?r \<noteq> i \<longrightarrow> ?r' = ?r" using row[OF k] by auto
    from c have so: "same_outside_update ?r ?r'"
      using same_outside_update_refl same_outside_update_written by metis
    from c have four: "(body_status b = JUndefined \<longrightarrow> status ?r' = status ?r)
          \<and> (fixStatus b = JUndefined \<longrightarrow> fix_status ?r' = fix_status ?r)
          \<and> (suggestedFix b = JUndefined \<longrightarrow> suggested_fix ?r' = suggested_fix ?r)
          \<and> (claudeAnalysis b = JUndefined \<longrightarrow> claude_analysis ?r' = claude_analysis ?r)"
      by (auto simp: written_def)
    show ?thesis using so same_outside_update_fields[OF so] far four by simp
  qed
  have none: "resp = Json 400 (Error ''No valid fields to update'') \<and> s' = s"
    if "body_status b = JUndefined \<and> fixStatus b = JUndefined
          \<and> suggestedFix b = JUndefined \<and> claudeAnalysis b = JUndefined"
  proof -
    have "build_updates b = []" using that by (simp add: build_updates_empty)
    from updateBugReport_no_fields[OF this, of e i s] assms show ?thesis by simp
  qed
  have nf: "resp = Json 404 (Error ''Bug report not found'') \<and> rows s' = rows s"
    if "(\<forall>r \<in> set (rows s). id_r r \<noteq> i) \<and> build_updates b \<noteq> [] \<and> update_fault e = None"
  proof -
    from that updateBugReport_not_found[of s i b e] assms show ?thesis
      by (auto simp: issue_def)
  qed
  show ?thesis using len updateBugReport_next_id[OF assms] per_row none nf by blast
qed

lemma resolve_update_eval:
  "rows (snd (updateBugReport (an_env 2000) 7 resolve_update one_row_store))
   = [(a_report 7 (js ''app1'') (js ''f1'') None 1 1000)\<lparr>status := JStr (js ''resolved'')\<rparr>]"
  "fst (updateBugReport (an_env 2000) 7 resolve_update one_row_store)
   = Json 200 (Updated ((a_report 7 (js ''app1'') (js ''f1'') None 1 1000)\<lparr>status := JStr (js ''resolved'')\<rparr>))"
proof -
  have ne: "(build_updates resolve_update = []) = False"
    by (simp add: build_updates_empty resolve_update_def)
  have w: "written resolve_update (a_report 7 (js ''app1'') (js ''f1'') None 1 1000)
           = (a_report 7 (js ''app1'') (js ''f1'') None 1 1000)\<lparr>status := JStr (js ''resolved'')\<rparr>"
    by (simp add: written_def resolve_update_def a_report_def)
  have i: "id_r (a_report 7 (js ''app1'') (js ''f1'') None 1 1000) = 7" by (simp add: a_report_def)
  show "rows (snd (updateBugReport (an_env 2000) 7 resolve_update one_row_store))
   = [(a_report 7 (js ''app1'') (js ''f1'') None 1 1000)\<lparr>status := JStr (js ''resolved'')\<rparr>]"
    by (simp add: updateBugReport_def update_by_id_def set_columns_build_updates ne w i Let_def
        one_row_store_def an_env_def issue_def)
  show "fst (updateBugReport (an_env 2000) 7 resolve_update one_row_store)
   = Json 200 (Updated ((a_report 7 (js ''app1'') (js ''f1'') None 1 1000)\<lparr>status := JStr (js ''resolved'')\<rparr>))"
    by (simp add: updateBugReport_def update_by_id_def set_columns_build_updates ne w i Let_def
        one_row_store_def an_env_def issue_def)
qed

theorem update_frame_witness:
  "updateBugReport (an_env 2000) 7 resolve_update one_row_store
     = (Json 200 (Updated ((a_report 7 (js ''app1'') (js ''f1'') None 1 1000)\<lparr>status := JStr (js ''resolved'')\<rparr>)),
        snd (updateBugReport (an_env 2000) 7 resolve_update one_row_store))
   \<and> status (rows (snd (updateBugReport (an_env 2000) 7 resolve_update one_row_store)) ! 0)
       = JStr (js ''resolved'')
   \<and> fingerprint (rows (snd (updateBugReport (an_env 2000) 7 resolve_update one_row_store)) ! 0)
       = (js ''f1'')
   \<and> canonical_id (rows (snd (updateBugReport (an_env 2000) 7 resolve_update one_row_store)) ! 0)
       = None
   \<and> duplicate_count (rows (snd (updateBugReport (an_env 2000) 7 resolve_update one_row_store)) ! 0)
       = 1
   \<and> fix_status (rows (snd (updateBugReport (an_env 2000) 7 resolve_update one_row_store)) ! 0)
       = JNull"
proof -
  let ?u = "updateBugReport (an_env 2000) 7 resolve_update one_row_store"
  have run: "?u = (Json 200 (Updated ((a_report 7 (js ''app1'') (js ''f1'') None 1 1000)\<lparr>status := JStr (js ''resolved'')\<rparr>)), snd ?u)"
    using resolve_update_eval(2) by (metis prod.collapse)
  have k: "0 < length (rows one_row_store)" by (simp add: one_row_store_def)
  have old: "rows one_row_store ! 0 = a_report 7 (js ''app1'') (js ''f1'') None 1 1000"
    by (simp add: one_row_store_def)
  have und: "fixStatus resolve_update = JUndefined" by (simp add: resolve_update_def)
  from update_frame[OF run] k
  have "fingerprint (rows (snd ?u) ! 0) = fingerprint (rows one_row_store ! 0)
      \<and> canonical_id (rows (snd ?u) ! 0) = canonical_id (rows one_row_store ! 0)
      \<and> duplicate_count (rows (snd ?u) ! 0) = duplicate_count (rows one_row_store ! 0)
      \<and> (fixStatus resolve_update = JUndefined \<longrightarrow>
           fix_status (rows (snd ?u) ! 0) = fix_status (rows one_row_store ! 0))"
    by blast
  then have "fingerprint (rows (snd ?u) ! 0) = (js ''f1'')
      \<and> canonical_id (rows (snd ?u) ! 0) = None
      \<and> duplicate_count (rows (snd ?u) ! 0) = 1
      \<and> fix_status (rows (snd ?u) ! 0) = JNull"
    using old und by (simp add: a_report_def)
  moreover have "status (rows (snd ?u) ! 0) = JStr (js ''resolved'')"
    by (simp add: resolve_update_eval(1))
  ultimately show ?thesis using run by blast
qed


lemma build_updates_keys:
  "(\<not> truthy (body_status b) \<longrightarrow> ''status'' \<notin> set (map fst (build_updates b)))
 \<and> (\<not> truthy (fixStatus b) \<longrightarrow> ''fix_status'' \<notin> set (map fst (build_updates b)))
 \<and> (suggestedFix b \<noteq> JUndefined \<longrightarrow>
       (''suggested_fix'', suggestedFix b) \<in> set (build_updates b))
 \<and> (claudeAnalysis b \<noteq> JUndefined \<longrightarrow>
       (''claude_analysis'', claudeAnalysis b) \<in> set (build_updates b))"
  by (auto simp: build_updates_def)

lemma updateBugReport_falsy_kept:
  assumes "k < length (rows s)"
  shows "(\<not> truthy (body_status b) \<longrightarrow>
            status (rows (snd (updateBugReport e i b s)) ! k) = status (rows s ! k))
       \<and> (\<not> truthy (fixStatus b) \<longrightarrow>
            fix_status (rows (snd (updateBugReport e i b s)) ! k) = fix_status (rows s ! k))"
proof -
  have run: "updateBugReport e i b s
             = (fst (updateBugReport e i b s), snd (updateBugReport e i b s))" by simp
  from updateBugReport_rows[OF run] assms
  have "rows (snd (updateBugReport e i b s)) ! k = rows s ! k
      \<or> rows (snd (updateBugReport e i b s)) ! k = written b (rows s ! k)"
    by (auto split: if_splits)
  then show ?thesis by (auto simp: written_def)
qed

lemma updateBugReport_defined_written:
  assumes "k < length (rows s)" and "update_fault e = None" and "id_r (rows s ! k) = i"
  shows "(suggestedFix b \<noteq> JUndefined \<longrightarrow>
            suggested_fix (rows (snd (updateBugReport e i b s)) ! k) = suggestedFix b)
       \<and> (claudeAnalysis b \<noteq> JUndefined \<longrightarrow>
            claude_analysis (rows (snd (updateBugReport e i b s)) ! k) = claudeAnalysis b)"
proof (cases "build_updates b = []")
  case True
  then show ?thesis by (simp add: build_updates_empty)
next
  case False
  have run: "updateBugReport e i b s
             = (fst (updateBugReport e i b s), snd (updateBugReport e i b s))" by simp
  from updateBugReport_applied[OF run assms(2) False] assms(1,3)
  have "rows (snd (updateBugReport e i b s)) ! k = written b (rows s ! k)" by simp
  then show ?thesis by (simp add: written_def)
qed

text \<open>
  C10. A \<open>status\<close> or \<open>fixStatus\<close> that is supplied but falsy (the empty string, 0,
  false, null) is not put among the updates and the column keeps its value; a request
  whose only supplied fields are such values is answered 400 with the store untouched.
  A \<open>suggestedFix\<close> or \<open>claudeAnalysis\<close> that is not undefined is put among the
  updates, null and the empty string included, and (the store answering) is the new value
  of the column in the addressed row.
\<close>

theorem update_falsy_fields:
  "(\<not> truthy (body_status b) \<longrightarrow> ''status'' \<notin> set (map fst (build_updates b)))
 \<and> (\<not> truthy (fixStatus b) \<longrightarrow> ''fix_status'' \<notin> set (map fst (build_updates b)))
 \<and> (suggestedFix b \<noteq> JUndefined \<longrightarrow>
       (''suggested_fix'', suggestedFix b) \<in> set (build_updates b))
 \<and> (claudeAnalysis b \<noteq> JUndefined \<longrightarrow>
       (''claude_analysis'', claudeAnalysis b) \<in> set (build_updates b))
 \<and> (\<not> truthy (body_status b) \<and> \<not> truthy (fixStatus b)
     \<and> suggestedFix b = JUndefined \<and> claudeAnalysis b = JUndefined \<longrightarrow>
       updateBugReport e i b s = (Json 400 (Error ''No valid fields to update''), s))
 \<and> (\<forall>k < length (rows s).
       (\<not> truthy (body_status b) \<longrightarrow>
          status (rows (snd (updateBugReport e i b s)) ! k) = status (rows s ! k))
     \<and> (\<not> truthy (fixStatus b) \<longrightarrow>
          fix_status (rows (snd (updateBugReport e i b s)) ! k) = fix_status (rows s ! k))
     \<and> (update_fault e = None \<and> id_r (rows s ! k) = i \<and> suggestedFix b \<noteq> JUndefined \<longrightarrow>
          suggested_fix (rows (snd (updateBugReport e i b s)) ! k) = suggestedFix b)
     \<and> (update_fault e = None \<and> id_r (rows s ! k) = i \<and> claudeAnalysis b \<noteq> JUndefined \<longrightarrow>
          claude_analysis (rows (snd (updateBugReport e i b s)) ! k) = claudeAnalysis b))"
proof -
  have none: "updateBugReport e i b s = (Json 400 (Error ''No valid fields to update''), s)"
    if "\<not> truthy (body_status b) \<and> \<not> truthy (fixStatus b)
        \<and> suggestedFix b = JUndefined \<and> claudeAnalysis b = JUndefined"
    using that by (simp add: updateBugReport_no_fields build_updates_empty)
  show ?thesis
    using build_updates_keys[of b] none updateBugReport_falsy_kept[of _ s b e i]
      updateBugReport_defined_written[of _ s e i b]
    by blast
qed

theorem update_falsy_fields_witness:
  "updateBugReport (an_env 2000) 7 only_falsy_update analysed_store
     = (Json 400 (Error ''No valid fields to update''), analysed_store)
 \<and> status (rows (snd (updateBugReport (an_env 2000) 7 falsy_update analysed_store)) ! 0)
     = JStr (js ''open'')
 \<and> fix_status (rows (snd (updateBugReport (an_env 2000) 7 falsy_update analysed_store)) ! 0)
     = JNull
 \<and> suggested_fix (rows (snd (updateBugReport (an_env 2000) 7 falsy_update analysed_store)) ! 0)
     = JStr []
 \<and> claude_analysis (rows (snd (updateBugReport (an_env 2000) 7 falsy_update analysed_store)) ! 0)
     = JNull"
proof -
  have k: "0 < length (rows analysed_store)" by (simp add: analysed_store_def)
  have old: "status (rows analysed_store ! 0) = JStr (js ''open'')"
    "fix_status (rows analysed_store ! 0) = JNull" "id_r (rows analysed_store ! 0) = 7"
    by (simp_all add: analysed_store_def a_report_def)
  have f: "\<not> truthy (body_status falsy_update)" "\<not> truthy (fixStatus falsy_update)"
    "suggestedFix falsy_update = JStr []" "claudeAnalysis falsy_update = JNull"
    by (simp_all add: falsy_update_def)
  have o: "\<not> truthy (body_status only_falsy_update) \<and> \<not> truthy (fixStatus only_falsy_update)
     \<and> suggestedFix only_falsy_update = JUndefined \<and> claudeAnalysis only_falsy_update = JUndefined"
    by (simp add: only_falsy_update_def)
  have e: "update_fault (an_env 2000) = None" by (simp add: an_env_def)
  from update_falsy_fields[of only_falsy_update "an_env 2000" 7 analysed_store] o
  have 1: "updateBugReport (an_env 2000) 7 only_falsy_update analysed_store
     = (Json 400 (Error ''No valid fields to update''), analysed_store)" by blast
  from update_falsy_fields[of falsy_update "an_env 2000" 7 analysed_store] k
  have 2: "(\<not> truthy (body_status falsy_update) \<longrightarrow>
          status (rows (snd (updateBugReport (an_env 2000) 7 falsy_update analysed_store)) ! 0)
          = status (rows analysed_store ! 0))
     \<and> (\<not> truthy (fixStatus falsy_update) \<longrightarrow>
          fix_status (rows (snd (updateBugReport (an_env 2000) 7 falsy_update analysed_store)) ! 0)
          = fix_status (rows analysed_store ! 0))
     \<and> (update_fault (an_env 2000) = None \<and> id_r (rows analysed_store ! 0) = 7
          \<and> suggestedFix falsy_update \<noteq> JUndefined \<longrightarrow>
          suggested_fix (rows (snd (updateBugReport (an_env 2000) 7 falsy_update analysed_store)) ! 0)
          = suggestedFix falsy_update)
     \<and> (update_fault (an_env 2000) = None \<and> id_r (rows analysed_store ! 0) = 7
          \<and> claudeAnalysis falsy_update \<noteq> JUndefined \<longrightarrow>
          claude_analysis (rows (snd (updateBugReport (an_env 2000) 7 falsy_update analysed_store)) ! 0)
          = claudeAnalysis falsy_update)"
    by blast
  show ?thesis using 1 2 old f e by simp
qed

section \<open>Submission\<close>

lemma findDuplicate_snd:
  "snd (findDuplicate e fp app s) = issue (SelectCanonical fp app (sevenDaysAgo e)) s"
  by (simp add: findDuplicate_def select_canonical_def Let_def
      split: option.splits list.splits)

lemma findDuplicate_Some:
  assumes "fst (findDuplicate e fp app s) = Some cid"
  shows "\<exists>c \<in> set (rows s). id_r c = cid \<and> app_id c = app \<and> canonical_id c = None
           \<and> fingerprint c = fp \<and> sevenDaysAgo e \<le> created_at c"
proof -
  let ?ms = "canonical_matches fp app (sevenDaysAgo e) (rows s)"
  from assms obtain c rest where sk: "sort_key created_at ?ms = c # rest" and i: "id_r c = cid"
    by (auto simp: findDuplicate_def select_canonical_def Let_def
        split: option.splits list.splits)
  from sort_key_hd_least[OF sk] have "c \<in> set ?ms" by simp
  then show ?thesis using i by (auto simp: canonical_matches_def)
qed

lemma submitBugReport_valid:
  assumes "nonempty_string (appId b) = Some app"
    and "nonempty_string (body_description b) = Some d"
    and "5 \<le> length (trim d)"
    and "valid_priority (body_priority b) = Some p"
  shows "submitBugReport e u b s = submit_valid e u b app d p s"
  using assms by (simp add: submitBugReport_def)

lemma submit_valid_inserted:
  assumes "insert_fault e = None"
  shows "submit_valid e u b app d p s =
     (let fp = generateFingerprint app d (screenName b);
          m = fst (findDuplicate e fp app s);
          r = created_row e u b app d p s;
          sel = SelectCanonical fp app (sevenDaysAgo e)
      in (Json 201 (Submitted (next_id s) (status r) (m \<noteq> None) m
                      (length (upload_screenshots e app b))),
          case m of
            None \<Rightarrow> \<lparr> rows = rows s @ [r], next_id = Suc (next_id s),
                      calls = calls s @ [sel, InsertReport] \<rparr>
          | Some cid \<Rightarrow>
              \<lparr> rows = (if rpc_fault e = None then map (bump_count (now e) cid) (rows s @ [r])
                         else rows s @ [r]),
                next_id = Suc (next_id s),
                calls = calls s @ [sel, InsertReport, IncrementDuplicateCount cid] \<rparr>))"
proof -
  obtain m s1 where fd: "findDuplicate e (generateFingerprint app d (screenName b)) app s = (m, s1)"
    by (cases "findDuplicate e (generateFingerprint app d (screenName b)) app s")
  have s1: "s1 = issue (SelectCanonical (generateFingerprint app d (screenName b)) app
                  (sevenDaysAgo e)) s"
    using findDuplicate_snd[of e "generateFingerprint app d (screenName b)" app s] fd by simp
  show ?thesis
    using assms fd
    by (cases m)
       (simp_all add: submit_valid_def created_row_def insert_report_def
          increment_bug_duplicate_count_def issue_def s1 Let_def insert_payload_def
          split: option.splits)
qed


lemma bump_count_other: "id_r r \<noteq> cid \<Longrightarrow> bump_count t cid r = r"
  by (simp add: bump_count_def)

lemma bump_count_keeps:
  "id_r (bump_count t cid r) = id_r r" "app_id (bump_count t cid r) = app_id r"
  "canonical_id (bump_count t cid r) = canonical_id r"
  "fingerprint (bump_count t cid r) = fingerprint r"
  "created_at (bump_count t cid r) = created_at r"
  by (simp_all add: bump_count_def)

lemma created_row_fields:
  "id_r (created_row e u b app d p s) = next_id s"
  "app_id (created_row e u b app d p s) = app"
  "fingerprint (created_row e u b app d p s) = generateFingerprint app d (screenName b)"
  "created_at (created_row e u b app d p s) = now e"
  "canonical_id (created_row e u b app d p s)
   = fst (findDuplicate e (generateFingerprint app d (screenName b)) app s)"
  "status (created_row e u b app d p s)
   = (if fst (findDuplicate e (generateFingerprint app d (screenName b)) app s) \<noteq> None
      then JStr (js ''duplicate'') else JStr (js ''open''))"
  "duplicate_count (created_row e u b app d p s)
   = (if fst (findDuplicate e (generateFingerprint app d (screenName b)) app s) \<noteq> None
      then 0 else 1)"
  by (simp_all add: created_row_def insert_payload_def Let_def)

text \<open>The rows after a valid submission whose insert the store accepts.\<close>

lemma submit_rows:
  assumes "nonempty_string (appId b) = Some app"
    and "nonempty_string (body_description b) = Some d"
    and "5 \<le> length (trim d)"
    and "valid_priority (body_priority b) = Some p"
    and "insert_fault e = None"
    and "ids_below s"
  shows "rows (snd (submitBugReport e u b s)) =
     (case fst (findDuplicate e (generateFingerprint app d (screenName b)) app s) of
        None \<Rightarrow> rows s
      | Some cid \<Rightarrow> if rpc_fault e = None then map (bump_count (now e) cid) (rows s) else rows s)
     @ [created_row e u b app d p s]"
proof (cases "fst (findDuplicate e (generateFingerprint app d (screenName b)) app s)")
  case None
  then show ?thesis
    using assms(1-5) by (simp add: submitBugReport_valid submit_valid_inserted Let_def)
next
  case (Some cid)
  from findDuplicate_Some[OF Some] assms(6) have "cid < next_id s"
    by (auto simp: ids_below_def)
  then have "bump_count (now e) cid (created_row e u b app d p s) = created_row e u b app d p s"
    by (simp add: bump_count_other created_row_fields(1))
  then show ?thesis
    using assms(1-5) Some by (simp add: submitBugReport_valid submit_valid_inserted Let_def)
qed

text \<open>
  C3. For a valid submission whose insert the store accepts, in a store where every id
  is below the next one to assign: exactly one row is added, with the next id, the
  tenant and the fingerprint of the request. If the resolver found a match, the row has
  status duplicate, the match as canonical id and duplicate count 0, and the increment
  of the match is issued after the insert; if it found none, the row has status open, no
  canonical id and duplicate count 1, and no increment is issued. The answer is 201 with
  the row's id and status.
\<close>

theorem submit_postcondition:
  assumes "nonempty_string (appId b) = Some app"
    and "nonempty_string (body_description b) = Some d"
    and "5 \<le> length (trim d)"
    and "valid_priority (body_priority b) = Some p"
    and "insert_fault e = None"
    and "ids_below s"
  shows "\<exists>r. r \<in> set (rows (snd (submitBugReport e u b s)))
          \<and> id_r r = next_id s
          \<and> (\<forall>r' \<in> set (rows (snd (submitBugReport e u b s))). id_r r' = next_id s \<longrightarrow> r' = r)
          \<and> length (rows (snd (submitBugReport e u b s))) = Suc (length (rows s))
          \<and> app_id r = app
          \<and> fingerprint r = generateFingerprint app d (screenName b)
          \<and> (case fst (findDuplicate e (generateFingerprint app d (screenName b)) app s) of
               Some cid \<Rightarrow>
                 status r = JStr (js ''duplicate'') \<and> canonical_id r = Some cid
                 \<and> duplicate_count r = 0
                 \<and> calls (snd (submitBugReport e u b s))
                     = calls s @ [SelectCanonical (generateFingerprint app d (screenName b)) app
                                    (sevenDaysAgo e),
                                  InsertReport, IncrementDuplicateCount cid]
                 \<and> fst (submitBugReport e u b s)
                     = Json 201 (Submitted (next_id s) (JStr (js ''duplicate'')) True (Some cid)
                                  (length (upload_screenshots e app b)))
             | None \<Rightarrow>
                 status r = JStr (js ''open'') \<and> canonical_id r = None \<and> duplicate_count r = 1
                 \<and> calls (snd (submitBugReport e u b s))
                     = calls s @ [SelectCanonical (generateFingerprint app d (screenName b)) app
                                    (sevenDaysAgo e),
                                  InsertReport]
                 \<and> fst (submitBugReport e u b s)
                     = Json 201 (Submitted (next_id s) (JStr (js ''open'')) False None
                                  (length (upload_screenshots e app b))))"
proof -
  let ?fp = "generateFingerprint app d (screenName b)"
  let ?m = "fst (findDuplicate e ?fp app s)"
  let ?r = "created_row e u b app d p s"
  let ?s' = "snd (submitBugReport e u b s)"
  note rows' = submit_rows[OF assms, of u]
  have run: "submitBugReport e u b s = submit_valid e u b app d p s"
    using assms(1-4) by (rule submitBugReport_valid)
  have mem: "?r \<in> set (rows ?s')" by (simp add: rows' split: option.splits)
  have len: "length (rows ?s') = Suc (length (rows s))"
    by (simp add: rows' split: option.splits)
  have uniq: "\<forall>r' \<in> set (rows ?s'). id_r r' = next_id s \<longrightarrow> r' = ?r"
  proof
    fix r' assume "r' \<in> set (rows ?s')"
    then have "r' = ?r \<or> (\<exists>r0 \<in> set (rows s). id_r r' = id_r r0)"
      by (auto simp: rows' bump_count_keeps split: option.splits if_splits)
    then show "id_r r' = next_id s \<longrightarrow> r' = ?r"
      using assms(6) by (auto simp: ids_below_def)
  qed
  have branch: "case ?m of
               Some cid \<Rightarrow>
                 status ?r = JStr (js ''duplicate'') \<and> canonical_id ?r = Some cid
                 \<and> duplicate_count ?r = 0
                 \<and> calls ?s' = calls s @ [SelectCanonical ?fp app (sevenDaysAgo e),
                                  InsertReport, IncrementDuplicateCount cid]
                 \<and> fst (submitBugReport e u b s)
                     = Json 201 (Submitted (next_id s) (JStr (js ''duplicate'')) True (Some cid)
                                  (length (upload_screenshots e app b)))
             | None \<Rightarrow>
                 status ?r = JStr (js ''open'') \<and> canonical_id ?r = None \<and> duplicate_count ?r = 1
                 \<and> calls ?s' = calls s @ [SelectCanonical ?fp app (sevenDaysAgo e),
                                  InsertReport]
                 \<and> fst (submitBugReport e u b s)
                     = Json 201 (Submitted (next_id s) (JStr (js ''open'')) False None
                                  (length (upload_screenshots e app b)))"
    using assms(5)
    by (cases ?m) (simp_all add: run submit_valid_inserted created_row_fields Let_def)
  show ?thesis
    using mem uniq len branch created_row_fields(1-3)[of e u b app d p s]
    by (intro exI[of _ ?r] conjI) assumption+
qed

lemma crash_body_valid:
  "nonempty_string (appId (crash_body (js ''app1'') (js ''crash on launch'') (js ''low''))) = Some (js ''app1'')"
  "nonempty_string (body_description (crash_body (js ''app1'') (js ''crash on launch'') (js ''low'')))
   = Some (js ''crash on launch'')"
  "5 \<le> length (trim (js ''crash on launch''))"
  "valid_priority (body_priority (crash_body (js ''app1'') (js ''crash on launch'') (js ''low''))) = Some (js ''low'')"
  "screenName (crash_body (js ''app1'') (js ''crash on launch'') (js ''low'')) = None"
  by (simp_all add: crash_body_def crash_texts(6))

lemma crash_store_match:
  "select_fault e = None \<Longrightarrow> sevenDaysAgo e \<le> 1000 \<Longrightarrow>
   fst (findDuplicate e (generateFingerprint (js ''app1'') (js ''crash on launch'') None)
          (js ''app1'') crash_store) = Some 0"
  by (simp add: findDuplicate_def select_canonical_def canonical_matches_def crash_store_def
      a_report_def issue_def)

theorem submit_postcondition_witness:
  "fst (submitBugReport (an_env 2000) None (crash_body (js ''app1'') (js ''crash on launch'') (js ''low''))
          crash_store)
     = Json 201 (Submitted 1 (JStr (js ''duplicate'')) True (Some 0) 0)
   \<and> (\<exists>r. r \<in> set (rows (snd (submitBugReport (an_env 2000) None
                                  (crash_body (js ''app1'') (js ''crash on launch'') (js ''low'')) crash_store)))
          \<and> id_r r = 1 \<and> status r = JStr (js ''duplicate'') \<and> canonical_id r = Some 0
          \<and> duplicate_count r = 0)"
proof -
  let ?b = "crash_body (js ''app1'') (js ''crash on launch'') (js ''low'')"
  have e: "insert_fault (an_env 2000) = None" by (simp add: an_env_def)
  have below: "ids_below crash_store" by (simp add: ids_below_def crash_store_def a_report_def)
  have m: "fst (findDuplicate (an_env 2000) (generateFingerprint (js ''app1'') (js ''crash on launch'')
             (screenName ?b)) (js ''app1'') crash_store) = Some 0"
  proof -
    have "select_fault (an_env 2000) = None" by (simp add: an_env_def)
    moreover have "sevenDaysAgo (an_env 2000) \<le> 1000" by (simp add: sevenDaysAgo_utc)
    ultimately show ?thesis by (simp add: crash_body_valid(5) crash_store_match)
  qed
  have n: "next_id crash_store = 1" by (simp add: crash_store_def)
  have up: "upload_screenshots (an_env 2000) (js ''app1'') ?b = []"
    by (simp add: upload_screenshots_def crash_body_def)
  from submit_postcondition[OF crash_body_valid(1-4) e below, of None]
  obtain r where r: "r \<in> set (rows (snd (submitBugReport (an_env 2000) None ?b crash_store)))"
      "id_r r = next_id crash_store"
      "case fst (findDuplicate (an_env 2000) (generateFingerprint (js ''app1'') (js ''crash on launch'')
             (screenName ?b)) (js ''app1'') crash_store) of
         Some cid \<Rightarrow>
           status r = JStr (js ''duplicate'') \<and> canonical_id r = Some cid \<and> duplicate_count r = 0
           \<and> calls (snd (submitBugReport (an_env 2000) None ?b crash_store))
               = calls crash_store @ [SelectCanonical (generateFingerprint (js ''app1'') (js ''crash on launch'')
                    (screenName ?b)) (js ''app1'') (sevenDaysAgo (an_env 2000)),
                   InsertReport, IncrementDuplicateCount cid]
           \<and> fst (submitBugReport (an_env 2000) None ?b crash_store)
               = Json 201 (Submitted (next_id crash_store) (JStr (js ''duplicate'')) True (Some cid)
                            (length (upload_screenshots (an_env 2000) (js ''app1'') ?b)))
       | None \<Rightarrow>
           status r = JStr (js ''open'') \<and> canonical_id r = None \<and> duplicate_count r = 1
           \<and> calls (snd (submitBugReport (an_env 2000) None ?b crash_store))
               = calls crash_store @ [SelectCanonical (generateFingerprint (js ''app1'') (js ''crash on launch'')
                    (screenName ?b)) (js ''app1'') (sevenDaysAgo (an_env 2000)),
                   InsertReport]
           \<and> fst (submitBugReport (an_env 2000) None ?b crash_store)
               = Json 201 (Submitted (next_id crash_store) (JStr (js ''open'')) False None
                            (length (upload_screenshots (an_env 2000) (js ''app1'') ?b)))"
    by (elim exE conjE)
  from r(3) have post: "status r = JStr (js ''duplicate'')" "canonical_id r = Some 0"
      "duplicate_count r = 0"
      "fst (submitBugReport (an_env 2000) None ?b crash_store)
       = Json 201 (Submitted 1 (JStr (js ''duplicate'')) True (Some 0) 0)"
    unfolding m n up by simp_all
  from r(1,2) post show ?thesis unfolding n by (intro conjI exI[of _ r]) assumption+
qed


lemma findDuplicate_fault:
  "select_fault e = Some msg \<Longrightarrow> fst (findDuplicate e fp app s) = None"
  by (simp add: findDuplicate_def select_canonical_def Let_def)

lemma crash_submission:
  assumes "insert_fault e = None"
  shows "submitBugReport e None (crash_body (js ''app1'') (js ''crash on launch'') (js ''low'')) crash_store
    = (let fp = generateFingerprint (js ''app1'') (js ''crash on launch'') None;
          m = fst (findDuplicate e fp (js ''app1'') crash_store);
          r = created_row e None (crash_body (js ''app1'') (js ''crash on launch'') (js ''low''))
                (js ''app1'') (js ''crash on launch'') (js ''low'') crash_store;
          sel = SelectCanonical fp (js ''app1'') (sevenDaysAgo e)
      in (Json 201 (Submitted 1 (status r) (m \<noteq> None) m 0),
          case m of
            None \<Rightarrow> \<lparr> rows = rows crash_store @ [r], next_id = 2,
                      calls = [sel, InsertReport] \<rparr>
          | Some cid \<Rightarrow>
              \<lparr> rows = (if rpc_fault e = None
                         then map (bump_count (now e) cid) (rows crash_store @ [r])
                         else rows crash_store @ [r]),
                next_id = 2,
                calls = [sel, InsertReport, IncrementDuplicateCount cid] \<rparr>))"
proof -
  let ?b = "crash_body (js ''app1'') (js ''crash on launch'') (js ''low'')"
  have up: "upload_screenshots e (js ''app1'') ?b = []"
    by (simp add: upload_screenshots_def crash_body_def)
  have n: "next_id crash_store = 1" "calls crash_store = []" by (simp_all add: crash_store_def)
  have "submitBugReport e None ?b crash_store
        = submit_valid e None ?b (js ''app1'') (js ''crash on launch'') (js ''low'') crash_store"
    by (rule submitBugReport_valid[OF crash_body_valid(1-4)])
  then show ?thesis
    by (simp add: submit_valid_inserted[OF assms] crash_body_valid(5) up n Let_def
        split: option.split)
qed

text \<open>
  C2 (the code at the failing input). The store holds the canonical record of a report,
  with duplicate count 1. The same report is submitted again and the increment fails:
  the answer is 201, the new row is a duplicate of the canonical one, and the canonical
  duplicate count is still 1.
\<close>

theorem failed_increment_is_silent:
  "fst (submitBugReport rpc_down None (crash_body (js ''app1'') (js ''crash on launch'') (js ''low''))
          crash_store)
     = Json 201 (Submitted 1 (JStr (js ''duplicate'')) True (Some 0) 0)
   \<and> map id_r (rows (snd (submitBugReport rpc_down None
         (crash_body (js ''app1'') (js ''crash on launch'') (js ''low'')) crash_store))) = [0, 1]
   \<and> map canonical_id (rows (snd (submitBugReport rpc_down None
         (crash_body (js ''app1'') (js ''crash on launch'') (js ''low'')) crash_store))) = [None, Some 0]
   \<and> map duplicate_count (rows (snd (submitBugReport rpc_down None
         (crash_body (js ''app1'') (js ''crash on launch'') (js ''low'')) crash_store))) = [1, 0]
   \<and> calls (snd (submitBugReport rpc_down None
         (crash_body (js ''app1'') (js ''crash on launch'') (js ''low'')) crash_store))
     = [SelectCanonical (generateFingerprint (js ''app1'') (js ''crash on launch'') None) (js ''app1'')
          (2000 - 7 * msPerDay),
        InsertReport, IncrementDuplicateCount 0]"
proof -
  have e: "insert_fault rpc_down = None" "select_fault rpc_down = None"
    "sevenDaysAgo rpc_down \<le> 1000" "rpc_fault rpc_down = Some ''connection refused''"
    by (simp_all add: rpc_down_def an_env_def sevenDaysAgo_def msPerDay_def Let_def)
  have w: "sevenDaysAgo rpc_down = 2000 - 7 * msPerDay"
    by (simp add: rpc_down_def an_env_def sevenDaysAgo_def Let_def)
  have m: "fst (findDuplicate rpc_down (generateFingerprint (js ''app1'') (js ''crash on launch'') None)
             (js ''app1'') crash_store) = Some 0"
    by (rule crash_store_match[OF e(2,3)])
  have old: "rows crash_store
    = [a_report 0 (js ''app1'') (generateFingerprint (js ''app1'') (js ''crash on launch'') None) None 1 1000]"
    "next_id crash_store = 1"
    by (simp_all add: crash_store_def)
  show ?thesis
    by (simp add: crash_submission[OF e(1)] Let_def m e(4) w created_row_fields
        crash_body_valid(5) old a_report_def)
qed

text \<open>
  C8 (the code at the failing input). The store holds the canonical record of a report.
  The same report is submitted again and the lookup of the resolver fails: the answer is
  201 with status open, and the store now holds two canonical records of the same tenant
  and fingerprint.
\<close>

theorem failed_lookup_is_no_match:
  "fst (submitBugReport lookup_down None (crash_body (js ''app1'') (js ''crash on launch'') (js ''low''))
          crash_store)
     = Json 201 (Submitted 1 (JStr (js ''open'')) False None 0)
   \<and> map id_r (rows (snd (submitBugReport lookup_down None
         (crash_body (js ''app1'') (js ''crash on launch'') (js ''low'')) crash_store))) = [0, 1]
   \<and> map app_id (rows (snd (submitBugReport lookup_down None
         (crash_body (js ''app1'') (js ''crash on launch'') (js ''low'')) crash_store))) = [(js ''app1''), (js ''app1'')]
   \<and> map fingerprint (rows (snd (submitBugReport lookup_down None
         (crash_body (js ''app1'') (js ''crash on launch'') (js ''low'')) crash_store)))
     = [generateFingerprint (js ''app1'') (js ''crash on launch'') None,
        generateFingerprint (js ''app1'') (js ''crash on launch'') None]
   \<and> map canonical_id (rows (snd (submitBugReport lookup_down None
         (crash_body (js ''app1'') (js ''crash on launch'') (js ''low'')) crash_store))) = [None, None]"
proof -
  have e: "insert_fault lookup_down = None" "select_fault lookup_down = Some ''connection refused''"
    by (simp_all add: lookup_down_def an_env_def)
  have m: "fst (findDuplicate lookup_down (generateFingerprint (js ''app1'') (js ''crash on launch'') None)
             (js ''app1'') crash_store) = None"
    by (rule findDuplicate_fault[OF e(2)])
  have old: "rows crash_store
    = [a_report 0 (js ''app1'') (generateFingerprint (js ''app1'') (js ''crash on launch'') None) None 1 1000]"
    "next_id crash_store = 1"
    by (simp_all add: crash_store_def)
  show ?thesis
    by (simp add: crash_submission[OF e(1)] Let_def m created_row_fields
        crash_body_valid(5) old a_report_def)
qed

section \<open>The canonical and duplicate records\<close>

lemma chain_free_map:
  assumes "\<And>r. id_r (f r) = id_r r" and "\<And>r. app_id (f r) = app_id r"
    and "\<And>r. canonical_id (f r) = canonical_id r"
    and "chain_free rs"
  shows "chain_free (map f rs)"
  unfolding chain_free_def
proof
  fix r' assume "r' \<in> set (map f rs)"
  then obtain r where r: "r \<in> set rs" and r': "r' = f r" by auto
  show "case canonical_id r' of None \<Rightarrow> True
        | Some c \<Rightarrow> c \<noteq> id_r r'
            \<and> (\<exists>k \<in> set (map f rs). id_r k = c \<and> app_id k = app_id r' \<and> canonical_id k = None)"
  proof (cases "canonical_id r")
    case None
    then show ?thesis by (simp add: r' assms(3))
  next
    case (Some c)
    with assms(4) r obtain k where k: "c \<noteq> id_r r" "k \<in> set rs" "id_r k = c"
        "app_id k = app_id r" "canonical_id k = None"
      by (fastforce simp: chain_free_def)
    have "f k \<in> set (map f rs)" using k(2) by simp
    moreover have "id_r (f k) = c \<and> app_id (f k) = app_id r' \<and> canonical_id (f k) = None"
      using k by (simp add: assms(1-3) r')
    ultimately have "\<exists>k' \<in> set (map f rs). id_r k' = c \<and> app_id k' = app_id r'
        \<and> canonical_id k' = None"
      by (rule bexI[rotated])
    then show ?thesis using Some k(1) by (simp add: r' assms(1,3))
  qed
qed

lemma chain_free_snoc:
  assumes "chain_free rs"
    and "case canonical_id r of None \<Rightarrow> True
         | Some c \<Rightarrow> c \<noteq> id_r r
             \<and> (\<exists>k \<in> set rs. id_r k = c \<and> app_id k = app_id r \<and> canonical_id k = None)"
  shows "chain_free (rs @ [r])"
  using assms unfolding chain_free_def by (fastforce split: option.splits)

lemma chain_free_refs:
  "chain_free rs \<Longrightarrow> r \<in> set rs \<Longrightarrow> canonical_id r = Some c \<Longrightarrow> c \<in> id_r ` set rs"
  by (fastforce simp: chain_free_def)

text \<open>The invariants are kept by an update and by a submission.\<close>

lemma ids_below_cong:
  assumes "map id_r rs' = map id_r rs"
  shows "(\<forall>r \<in> set rs'. id_r r < n) = (\<forall>r \<in> set rs. id_r r < n)"
proof -
  have a: "(\<forall>r \<in> set xs. id_r r < n) = (\<forall>x \<in> set (map id_r xs). x < n)" for xs
    by simp
  show ?thesis by (simp only: a[of rs'] a[of rs] assms)
qed

lemma written_keeps:
  "id_r (written b r) = id_r r" "app_id (written b r) = app_id r"
  "canonical_id (written b r) = canonical_id r" "fingerprint (written b r) = fingerprint r"
  "created_at (written b r) = created_at r" "duplicate_count (written b r) = duplicate_count r"
  by (simp_all add: written_def)

lemma update_step:
  assumes "ids_below s \<and> ids_unique s \<and> no_chain s"
  shows "ids_below (snd (updateBugReport e i b s)) \<and> ids_unique (snd (updateBugReport e i b s))
       \<and> no_chain (snd (updateBugReport e i b s))"
proof -
  let ?w = "\<lambda>r. if id_r r = i then written b r else r"
  have run: "updateBugReport e i b s
             = (fst (updateBugReport e i b s), snd (updateBugReport e i b s))" by simp
  have keys: "id_r (?w r) = id_r r" "app_id (?w r) = app_id r"
    "canonical_id (?w r) = canonical_id r" for r
    by (simp_all add: written_keeps)
  have n: "next_id (snd (updateBugReport e i b s)) = next_id s"
    by (rule updateBugReport_next_id[OF run])
  have m: "ids_below (s\<lparr>rows := map ?w (rows s)\<rparr>) \<and> ids_unique (s\<lparr>rows := map ?w (rows s)\<rparr>)
       \<and> no_chain (s\<lparr>rows := map ?w (rows s)\<rparr>)"
  proof -
    have idm: "map id_r (map ?w (rows s)) = map id_r (rows s)"
      by (simp add: comp_def keys)
    have cf: "chain_free (map ?w (rows s))"
      using assms by (intro chain_free_map keys) (simp add: no_chain_def)
    have "\<forall>r \<in> set (map ?w (rows s)). id_r r < next_id s"
      using assms ids_below_cong[OF idm] by (simp add: ids_below_def)
    moreover have "distinct (map id_r (map ?w (rows s)))"
      using assms by (simp only: idm ids_unique_def)
    ultimately show ?thesis
      using cf by (simp add: ids_below_def ids_unique_def no_chain_def)
  qed
  from updateBugReport_rows[OF run]
  show ?thesis
  proof
    assume "rows (snd (updateBugReport e i b s)) = rows s"
    then show ?thesis using assms n by (simp add: ids_below_def ids_unique_def no_chain_def)
  next
    assume "rows (snd (updateBugReport e i b s)) = map ?w (rows s)"
    then show ?thesis using m n by (simp add: ids_below_def ids_unique_def no_chain_def)
  qed
qed

lemma submitBugReport_cases:
  "submitBugReport e u b s = (fst (submitBugReport e u b s), s)
   \<or> (\<exists>app d p. nonempty_string (appId b) = Some app
         \<and> nonempty_string (body_description b) = Some d \<and> 5 \<le> length (trim d)
         \<and> valid_priority (body_priority b) = Some p)"
  by (simp add: submitBugReport_def split: option.splits)

lemma submit_valid_insert_fault:
  assumes "insert_fault e = Some msg"
  shows "rows (snd (submit_valid e u b app d p s)) = rows s"
    and "next_id (snd (submit_valid e u b app d p s)) = next_id s"
proof -
  obtain m s1 where fd: "findDuplicate e (generateFingerprint app d (screenName b)) app s = (m, s1)"
    by (cases "findDuplicate e (generateFingerprint app d (screenName b)) app s")
  have s1: "s1 = issue (SelectCanonical (generateFingerprint app d (screenName b)) app
                  (sevenDaysAgo e)) s"
    using findDuplicate_snd[of e "generateFingerprint app d (screenName b)" app s] fd by simp
  show "rows (snd (submit_valid e u b app d p s)) = rows s"
    and "next_id (snd (submit_valid e u b app d p s)) = next_id s"
    using assms fd
    by (simp_all add: submit_valid_def insert_report_def issue_def s1 Let_def)
qed

lemma submit_next_id:
  assumes "nonempty_string (appId b) = Some app"
    and "nonempty_string (body_description b) = Some d"
    and "5 \<le> length (trim d)"
    and "valid_priority (body_priority b) = Some p"
    and "insert_fault e = None"
  shows "next_id (snd (submitBugReport e u b s)) = Suc (next_id s)"
  using assms
  by (simp add: submitBugReport_valid submit_valid_inserted Let_def split: option.splits)

lemma submit_step:
  assumes "ids_below s \<and> ids_unique s \<and> no_chain s"
  shows "ids_below (snd (submitBugReport e u b s)) \<and> ids_unique (snd (submitBugReport e u b s))
       \<and> no_chain (snd (submitBugReport e u b s))"
proof -
  let ?s' = "snd (submitBugReport e u b s)"
  from submitBugReport_cases[of e u b s]
  show ?thesis
  proof
    assume "submitBugReport e u b s = (fst (submitBugReport e u b s), s)"
    then have "?s' = s" by (metis snd_conv)
    then show ?thesis using assms by simp
  next
    assume "\<exists>app d p. nonempty_string (appId b) = Some app
         \<and> nonempty_string (body_description b) = Some d \<and> 5 \<le> length (trim d)
         \<and> valid_priority (body_priority b) = Some p"
    then obtain app d p where v: "nonempty_string (appId b) = Some app"
        "nonempty_string (body_description b) = Some d" "5 \<le> length (trim d)"
        "valid_priority (body_priority b) = Some p" by blast
    show ?thesis
    proof (cases "insert_fault e")
      case (Some msg)
      have "rows ?s' = rows s" "next_id ?s' = next_id s"
        using submit_valid_insert_fault[OF Some] by (simp_all add: submitBugReport_valid[OF v])
      then show ?thesis using assms by (simp add: ids_below_def ids_unique_def no_chain_def)
    next
      case None
      let ?fp = "generateFingerprint app d (screenName b)"
      let ?m = "fst (findDuplicate e ?fp app s)"
      let ?r = "created_row e u b app d p s"
      let ?old = "case ?m of None \<Rightarrow> rows s
          | Some cid \<Rightarrow> if rpc_fault e = None then map (bump_count (now e) cid) (rows s)
                         else rows s"
      have below: "ids_below s" using assms by simp
      have rows': "rows ?s' = ?old @ [?r]" by (rule submit_rows[OF v None below])
      have n': "next_id ?s' = Suc (next_id s)" by (rule submit_next_id[OF v None])
      have ids: "map id_r ?old = map id_r (rows s)"
        by (simp add: bump_count_keeps split: option.splits)
      have cf_old: "chain_free ?old"
      proof (cases ?m)
        case None
        then show ?thesis using assms by (simp add: no_chain_def)
      next
        case (Some cid)
        have "chain_free (map (bump_count (now e) cid) (rows s))"
          using assms by (intro chain_free_map) (simp_all add: bump_count_keeps no_chain_def)
        then show ?thesis using Some assms by (simp add: no_chain_def)
      qed
      have link: "case canonical_id ?r of None \<Rightarrow> True
         | Some c \<Rightarrow> c \<noteq> id_r ?r
             \<and> (\<exists>k \<in> set ?old. id_r k = c \<and> app_id k = app_id ?r \<and> canonical_id k = None)"
      proof (cases ?m)
        case None
        then show ?thesis by (simp add: created_row_fields(5))
      next
        case (Some cid)
        from findDuplicate_Some[OF Some] obtain c where c: "c \<in> set (rows s)" "id_r c = cid"
            "app_id c = app" "canonical_id c = None" by blast
        have lt: "cid < next_id s" using c(1,2) below by (auto simp: ids_below_def)
        have "\<exists>k \<in> set ?old. id_r k = cid \<and> app_id k = app \<and> canonical_id k = None"
        proof (cases "rpc_fault e = None")
          case True
          have "bump_count (now e) cid c \<in> set (map (bump_count (now e) cid) (rows s))"
            using c(1) by simp
          then show ?thesis using True Some c by (auto simp: bump_count_keeps)
        next
          case False
          then show ?thesis using Some c by auto
        qed
        then show ?thesis using Some lt by (simp add: created_row_fields)
      qed
      have 1: "ids_below ?s'"
        using below ids by (auto simp: ids_below_def rows' n' created_row_fields(1)
            dest!: arg_cong[where f=set] split: option.splits if_splits)
      have "next_id s \<notin> set (map id_r (rows s))" using below by (auto simp: ids_below_def)
      then have 2: "ids_unique ?s'"
        using assms by (simp add: ids_unique_def rows' ids created_row_fields(1))
      have 3: "no_chain ?s'"
        unfolding no_chain_def rows' by (rule chain_free_snoc[OF cf_old link])
      show ?thesis using 1 2 3 by simp
    qed
  qed
qed

lemma reachable_invariants:
  "reachable s \<Longrightarrow> ids_below s \<and> ids_unique s \<and> no_chain s"
proof (induction rule: reachable.induct)
  case (init n)
  show ?case by (simp add: ids_below_def ids_unique_def no_chain_def chain_free_def empty_store_def)
next
  case (submit s e u b)
  from submit.IH show ?case by (rule submit_step)
next
  case (update s e i b)
  from update.IH show ?case by (rule update_step)
qed



text \<open>
  C4. In every store that a sequence of submissions and updates produces from an empty
  table (whatever the requests and whichever store operations fail), each record either
  has no canonical id, or its canonical id is the id of another record, of the same
  tenant, that has no canonical id itself; and that record is the only one with this id.
\<close>

theorem no_chain_invariant:
  assumes "reachable s" and "r \<in> set (rows s)"
  shows "canonical_id r = None
       \<or> (\<exists>k \<in> set (rows s). canonical_id r = Some (id_r k) \<and> id_r k \<noteq> id_r r
             \<and> app_id k = app_id r \<and> canonical_id k = None
             \<and> (\<forall>k' \<in> set (rows s). id_r k' = id_r k \<longrightarrow> k' = k))"
proof (cases "canonical_id r")
  case None
  then show ?thesis by simp
next
  case (Some c)
  from reachable_invariants[OF assms(1)]
  have cf: "chain_free (rows s)" and d: "distinct (map id_r (rows s))"
    by (simp_all add: no_chain_def ids_unique_def)
  from cf assms(2) have "case canonical_id r of None \<Rightarrow> True
        | Some c \<Rightarrow> c \<noteq> id_r r
            \<and> (\<exists>k \<in> set (rows s). id_r k = c \<and> app_id k = app_id r \<and> canonical_id k = None)"
    unfolding chain_free_def by (rule bspec)
  with Some have "c \<noteq> id_r r"
    and "\<exists>k \<in> set (rows s). id_r k = c \<and> app_id k = app_id r \<and> canonical_id k = None"
    by simp_all
  then obtain k where k: "k \<in> set (rows s)" "id_r k = c" "c \<noteq> id_r r"
      "app_id k = app_id r" "canonical_id k = None"
    by blast
  have inj: "inj_on id_r (set (rows s))" using d by (simp add: distinct_map)
  have "k' = k" if "k' \<in> set (rows s)" and "id_r k' = id_r k" for k'
    using inj_onD[OF inj that(2) that(1) k(1)] .
  then have u: "\<forall>k' \<in> set (rows s). id_r k' = id_r k \<longrightarrow> k' = k" by blast
  have "canonical_id r = Some (id_r k) \<and> id_r k \<noteq> id_r r
             \<and> app_id k = app_id r \<and> canonical_id k = None
             \<and> (\<forall>k' \<in> set (rows s). id_r k' = id_r k \<longrightarrow> k' = k)"
    using Some k(2-5) u by simp
  then show ?thesis using k(1) by blast
qed


section \<open>Count conservation\<close>

lemma findDuplicate_single:
  assumes "select_fault e = None" and "canonicals_of a f (rows s) = [c]"
    and "sevenDaysAgo e \<le> created_at c"
  shows "fst (findDuplicate e f a s) = Some (id_r c)"
proof -
  have "canonical_matches f a (sevenDaysAgo e) (rows s)
        = filter (\<lambda>r. sevenDaysAgo e \<le> created_at r) (canonicals_of a f (rows s))"
    unfolding canonical_matches_def canonicals_of_def filter_filter
    by (rule filter_cong) auto
  then have "canonical_matches f a (sevenDaysAgo e) (rows s) = [c]"
    using assms(2,3) by simp
  then show ?thesis
    using assms(1) by (simp add: findDuplicate_def select_canonical_def Let_def)
qed

lemma findDuplicate_none:
  assumes "canonicals_of a f (rows s) = []"
  shows "fst (findDuplicate e f a s) = None"
proof (cases "fst (findDuplicate e f a s)")
  case None
  then show ?thesis .
next
  case (Some cid)
  from findDuplicate_Some[OF Some] obtain c where "c \<in> set (rows s)" "app_id c = a"
      "canonical_id c = None" "fingerprint c = f" by blast
  then have "c \<in> set (canonicals_of a f (rows s))" by (simp add: canonicals_of_def)
  then show ?thesis using assms by simp
qed

lemma canonicals_of_bump:
  "canonicals_of a f (map (bump_count t cid) rs) = map (bump_count t cid) (canonicals_of a f rs)"
  by (simp add: canonicals_of_def filter_map comp_def bump_count_keeps)

lemma duplicates_of_bump:
  "duplicates_of c (map (bump_count t cid) rs) = map (bump_count t cid) (duplicates_of c rs)"
  by (simp add: duplicates_of_def filter_map comp_def bump_count_keeps)

lemma canonicals_of_written:
  "canonicals_of a f (map (\<lambda>r. if id_r r = i then written b r else r) rs)
   = map (\<lambda>r. if id_r r = i then written b r else r) (canonicals_of a f rs)"
  by (simp add: canonicals_of_def filter_map comp_def written_keeps if_distrib cong: if_cong)

lemma duplicates_of_written:
  "duplicates_of c (map (\<lambda>r. if id_r r = i then written b r else r) rs)
   = map (\<lambda>r. if id_r r = i then written b r else r) (duplicates_of c rs)"
  by (simp add: duplicates_of_def filter_map comp_def written_keeps if_distrib cong: if_cong)

lemma submission_keyD:
  assumes "submission_key b = Some (a, f)"
  obtains d p where "nonempty_string (appId b) = Some a"
    and "nonempty_string (body_description b) = Some d"
    and "5 \<le> length (trim d)" and "generateFingerprint a d (screenName b) = f"
    and "valid_priority (body_priority b) = Some p"
  using assms by (auto simp: submission_key_def split: option.splits if_splits)

lemma submission_keyI:
  assumes "nonempty_string (appId b) = Some a"
    and "nonempty_string (body_description b) = Some d"
    and "5 \<le> length (trim d)" and "valid_priority (body_priority b) = Some p"
  shows "submission_key b = Some (a, generateFingerprint a d (screenName b))"
  using assms by (simp add: submission_key_def)

lemma run_op_invariants:
  assumes "ids_below s \<and> ids_unique s \<and> no_chain s"
  shows "ids_below (run_op x s) \<and> ids_unique (run_op x s) \<and> no_chain (run_op x s)"
proof (cases x)
  case (Submit e u b)
  show ?thesis unfolding Submit run_op.simps using assms by (rule submit_step)
next
  case (Update e i b)
  show ?thesis unfolding Update run_op.simps using assms by (rule update_step)
qed

text \<open>The first submission of a report creates its canonical record.\<close>

lemma first_submission:
  assumes inv: "ids_below s \<and> ids_unique s \<and> no_chain s"
    and none: "\<forall>r \<in> set (rows s). \<not> (app_id r = a \<and> fingerprint r = f)"
    and "counted_op a f (Submit e u b)"
  shows "counted a f (now e) (next_id s) 1 (snd (submitBugReport e u b s))"
proof -
  from assms(3) have key: "submission_key b = Some (a, f)" and ins: "insert_fault e = None"
    by (simp_all add: counted_op_def)
  from key obtain d p where v: "nonempty_string (appId b) = Some a"
      "nonempty_string (body_description b) = Some d" "5 \<le> length (trim d)"
      "valid_priority (body_priority b) = Some p"
    and fp: "generateFingerprint a d (screenName b) = f"
    by (rule submission_keyD) blast
  let ?s' = "snd (submitBugReport e u b s)"
  let ?r = "created_row e u b a d p s"
  have below: "ids_below s" and chain: "no_chain s" using inv by simp_all
  have n: "canonicals_of a f (rows s) = []"
    using none by (auto simp: canonicals_of_def filter_empty_conv)
  have m: "fst (findDuplicate e (generateFingerprint a d (screenName b)) a s) = None"
    unfolding fp by (rule findDuplicate_none[OF n])
  have rows': "rows ?s' = rows s @ [?r]"
    using submit_rows[OF v ins below, of u] m by simp
  have r: "id_r ?r = next_id s" "app_id ?r = a" "fingerprint ?r = f" "created_at ?r = now e"
    "canonical_id ?r = None" "duplicate_count ?r = 1"
    using m fp by (simp_all add: created_row_fields)
  have 1: "ids_below ?s' \<and> ids_unique ?s' \<and> no_chain ?s'"
    using inv by (rule submit_step)
  have 2: "canonicals_of a f (rows ?s') = [?r]"
    using n r by (simp add: rows' canonicals_of_def)
  have "c \<noteq> next_id s" if "x \<in> set (rows s)" "canonical_id x = Some c" for x c
  proof -
    from chain_free_refs[OF _ that] chain have "c \<in> id_r ` set (rows s)"
      by (simp add: no_chain_def)
    then show ?thesis using below by (auto simp: ids_below_def)
  qed
  then have "duplicates_of (next_id s) (rows s) = []"
    by (auto simp: duplicates_of_def filter_empty_conv)
  then have 3: "duplicates_of (next_id s) (rows ?s') = []"
    using r(5) by (simp add: rows' duplicates_of_def)
  show ?thesis
    unfolding counted_def using 1 2 3 r by simp
qed

text \<open>A later submission inside the window of the code is recorded as a duplicate.\<close>

lemma next_submission:
  assumes "counted a f t1 cid k s" and "counted_op a f (Submit e u b)"
    and "sevenDaysAgo e \<le> t1"
  shows "counted a f t1 cid (Suc k) (snd (submitBugReport e u b s))"
proof -
  from assms(2) have key: "submission_key b = Some (a, f)" and sel: "select_fault e = None"
    and ins: "insert_fault e = None" and rpc: "rpc_fault e = None"
    by (simp_all add: counted_op_def)
  from key obtain d p where v: "nonempty_string (appId b) = Some a"
      "nonempty_string (body_description b) = Some d" "5 \<le> length (trim d)"
      "valid_priority (body_priority b) = Some p"
    and fp: "generateFingerprint a d (screenName b) = f"
    by (rule submission_keyD) blast
  from assms(1) obtain c where inv: "ids_below s \<and> ids_unique s \<and> no_chain s"
    and c: "canonicals_of a f (rows s) = [c]" "id_r c = cid" "created_at c = t1"
      "duplicate_count c = int k"
    and dups: "Suc (length (duplicates_of cid (rows s))) = k"
    by (auto simp: counted_def)
  have below: "ids_below s" using inv by simp
  let ?s' = "snd (submitBugReport e u b s)"
  let ?r = "created_row e u b a d p s"
  let ?bump = "bump_count (now e) cid"
  have m: "fst (findDuplicate e (generateFingerprint a d (screenName b)) a s) = Some cid"
    unfolding fp using findDuplicate_single[OF sel c(1)] assms(3) c(2,3) by simp
  have rows': "rows ?s' = map ?bump (rows s) @ [?r]"
    using submit_rows[OF v ins below, of u] m rpc by simp
  have r: "id_r ?r = next_id s" "app_id ?r = a" "fingerprint ?r = f"
    "canonical_id ?r = Some cid"
    using m fp by (simp_all add: created_row_fields)
  have 1: "ids_below ?s' \<and> ids_unique ?s' \<and> no_chain ?s'"
    using inv by (rule submit_step)
  have "canonicals_of a f [?r] = []" using r(4) by (simp add: canonicals_of_def)
  moreover have "canonicals_of a f (rows ?s')
                 = canonicals_of a f (map ?bump (rows s)) @ canonicals_of a f [?r]"
    by (simp add: rows' canonicals_of_def)
  ultimately have 2: "canonicals_of a f (rows ?s') = [?bump c]"
    by (simp add: canonicals_of_bump c(1))
  have 3: "id_r (?bump c) = cid" "created_at (?bump c) = t1"
    "duplicate_count (?bump c) = int (Suc k)"
    using c(2-4) by (simp_all add: bump_count_def)
  have "duplicates_of cid [?r] = [?r]" using r(4) by (simp add: duplicates_of_def)
  moreover have "duplicates_of cid (rows ?s')
                 = duplicates_of cid (map ?bump (rows s)) @ duplicates_of cid [?r]"
    by (simp add: rows' duplicates_of_def)
  ultimately have 4:
    "length (duplicates_of cid (rows ?s')) = Suc (length (duplicates_of cid (rows s)))"
    by (simp add: duplicates_of_bump)
  show ?thesis
    unfolding counted_def using 1 2 3 4 dups by simp
qed

text \<open>
  What a submission of another tenant or fingerprint (or a rejected one) does to the rows:
  nothing, or it increments a record of its own report and appends a record of its own
  report.
\<close>

lemma other_submission_rows:
  assumes below: "ids_below s" and "submission_key b \<noteq> Some (a, f)"
  shows "rows (snd (submitBugReport e u b s)) = rows s
       \<or> (\<exists>r. \<not> (app_id r = a \<and> fingerprint r = f)
              \<and> (rows (snd (submitBugReport e u b s)) = rows s @ [r] \<and> canonical_id r = None
                 \<or> (\<exists>k \<in> set (rows s). \<exists>t. \<not> (app_id k = a \<and> fingerprint k = f)
                        \<and> canonical_id r = Some (id_r k)
                        \<and> (rows (snd (submitBugReport e u b s)) = rows s @ [r]
                           \<or> rows (snd (submitBugReport e u b s))
                              = map (bump_count t (id_r k)) (rows s) @ [r]))))"
proof -
  let ?s' = "snd (submitBugReport e u b s)"
  from submitBugReport_cases[of e u b s]
  show ?thesis
  proof
    assume "submitBugReport e u b s = (fst (submitBugReport e u b s), s)"
    then have "?s' = s" by (metis snd_conv)
    then show ?thesis by simp
  next
    assume "\<exists>app d p. nonempty_string (appId b) = Some app
         \<and> nonempty_string (body_description b) = Some d \<and> 5 \<le> length (trim d)
         \<and> valid_priority (body_priority b) = Some p"
    then obtain app d p where v: "nonempty_string (appId b) = Some app"
        "nonempty_string (body_description b) = Some d" "5 \<le> length (trim d)"
        "valid_priority (body_priority b) = Some p" by blast
    let ?fp = "generateFingerprint app d (screenName b)"
    have key: "\<not> (app = a \<and> ?fp = f)"
      using submission_keyI[OF v] assms(2) by auto
    show ?thesis
    proof (cases "insert_fault e")
      case (Some msg)
      have "rows ?s' = rows s"
        using submit_valid_insert_fault[OF Some] by (simp add: submitBugReport_valid[OF v])
      then show ?thesis by simp
    next
      case None
      let ?r = "created_row e u b app d p s"
      have r: "\<not> (app_id ?r = a \<and> fingerprint ?r = f)"
        using key by (simp add: created_row_fields)
      note rows' = submit_rows[OF v None below, of u]
      show ?thesis
      proof (cases "fst (findDuplicate e ?fp app s)")
        case None
        then have "rows ?s' = rows s @ [?r] \<and> canonical_id ?r = None"
          using rows' by (simp add: created_row_fields)
        with r show ?thesis by blast
      next
        case (Some cid)
        from findDuplicate_Some[OF Some] obtain k where k: "k \<in> set (rows s)" "id_r k = cid"
            "app_id k = app" "fingerprint k = ?fp" by blast
        have k': "\<not> (app_id k = a \<and> fingerprint k = f)" using key k(3,4) by simp
        have c: "canonical_id ?r = Some (id_r k)" using Some k(2) by (simp add: created_row_fields)
        have "rows ?s' = rows s @ [?r]
              \<or> rows ?s' = map (bump_count (now e) (id_r k)) (rows s) @ [?r]"
          using rows' Some k(2) by simp
        with k' c have "\<exists>t. \<not> (app_id k = a \<and> fingerprint k = f)
                        \<and> canonical_id ?r = Some (id_r k)
                        \<and> (rows ?s' = rows s @ [?r]
                           \<or> rows ?s' = map (bump_count t (id_r k)) (rows s) @ [?r])"
          by blast
        with k(1) r show ?thesis by blast
      qed
    qed
  qed
qed

lemma other_op_none:
  assumes "ids_below s"
    and none: "\<forall>r \<in> set (rows s). \<not> (app_id r = a \<and> fingerprint r = f)"
    and "other_op a f x"
  shows "\<forall>r \<in> set (rows (run_op x s)). \<not> (app_id r = a \<and> fingerprint r = f)"
proof (cases x)
  case (Submit e u b)
  with assms(3) have key: "submission_key b \<noteq> Some (a, f)" by (simp add: other_op_def)
  let ?s' = "snd (submitBugReport e u b s)"
  have bumped: "\<forall>r \<in> set (map (bump_count t c) (rows s)). \<not> (app_id r = a \<and> fingerprint r = f)"
    for t c
    using none by (simp add: bump_count_keeps)
  have "\<forall>r \<in> set (rows ?s'). \<not> (app_id r = a \<and> fingerprint r = f)"
    using other_submission_rows[OF assms(1) key, of e u]
  proof (elim disjE exE conjE bexE)
    assume "rows ?s' = rows s"
    then show ?thesis using none by simp
  next
    fix r :: report
    assume "\<not> (app_id r = a \<and> fingerprint r = f)" "rows ?s' = rows s @ [r]"
    then show ?thesis using none by simp
  next
    fix r :: report
    assume "\<not> (app_id r = a \<and> fingerprint r = f)" "rows ?s' = rows s @ [r]"
    then show ?thesis using none by simp
  next
    fix r k :: report and t
    assume "\<not> (app_id r = a \<and> fingerprint r = f)"
      "rows ?s' = map (bump_count t (id_r k)) (rows s) @ [r]"
    then show ?thesis using bumped[of t "id_r k"] by simp
  qed
  then show ?thesis unfolding Submit run_op.simps .
next
  case (Update e i b)
  have run: "updateBugReport e i b s
             = (fst (updateBugReport e i b s), snd (updateBugReport e i b s))" by simp
  have "\<forall>r \<in> set (map (\<lambda>r. if id_r r = i then written b r else r) (rows s)).
          \<not> (app_id r = a \<and> fingerprint r = f)"
  proof
    fix r assume "r \<in> set (map (\<lambda>r. if id_r r = i then written b r else r) (rows s))"
    then obtain r0 where r0: "r0 \<in> set (rows s)"
      and r: "r = (if id_r r0 = i then written b r0 else r0)" by auto
    have "app_id r = app_id r0" "fingerprint r = fingerprint r0"
      by (simp_all add: r written_keeps)
    then show "\<not> (app_id r = a \<and> fingerprint r = f)" using none r0 by simp
  qed
  with updateBugReport_rows[OF run] none
  have "\<forall>r \<in> set (rows (snd (updateBugReport e i b s))). \<not> (app_id r = a \<and> fingerprint r = f)"
    by (elim disjE) simp_all
  then show ?thesis unfolding Update run_op.simps .
qed

lemma other_op_counted:
  assumes "counted a f t1 cid k s" and "other_op a f x"
  shows "counted a f t1 cid k (run_op x s)"
proof -
  from assms(1) obtain c where inv: "ids_below s \<and> ids_unique s \<and> no_chain s"
    and c: "canonicals_of a f (rows s) = [c]" "id_r c = cid" "created_at c = t1"
      "duplicate_count c = int k"
    and dups: "Suc (length (duplicates_of cid (rows s))) = k"
    by (auto simp: counted_def)
  have inv': "ids_below (run_op x s) \<and> ids_unique (run_op x s) \<and> no_chain (run_op x s)"
    using inv by (rule run_op_invariants)
  have "c \<in> set (canonicals_of a f (rows s))" by (simp add: c(1))
  then have cin: "c \<in> set (rows s)" and ckey: "app_id c = a" "fingerprint c = f"
    by (simp_all add: canonicals_of_def)
  have inj: "inj_on id_r (set (rows s))" using inv by (simp add: ids_unique_def distinct_map)
  have "\<exists>c'. canonicals_of a f (rows (run_op x s)) = [c'] \<and> id_r c' = cid
           \<and> created_at c' = t1 \<and> duplicate_count c' = int k
           \<and> length (duplicates_of cid (rows (run_op x s)))
              = length (duplicates_of cid (rows s))"
  proof (cases x)
    case (Submit e u b)
    with assms(2) have key: "submission_key b \<noteq> Some (a, f)" by (simp add: other_op_def)
    have below: "ids_below s" using inv by simp
    let ?s' = "snd (submitBugReport e u b s)"
    {
      fix r k :: report and t
      assume r: "\<not> (app_id r = a \<and> fingerprint r = f)"
        and k: "k \<in> set (rows s)" "\<not> (app_id k = a \<and> fingerprint k = f)"
          "canonical_id r = Some (id_r k)"
      have ne: "id_r k \<noteq> cid"
      proof
        assume "id_r k = cid"
        then have "id_r k = id_r c" by (simp add: c(2))
        from inj_onD[OF inj this k(1) cin] k(2) ckey show False by simp
      qed
      have nr: "canonicals_of a f [r] = []" "duplicates_of cid [r] = []"
        using r k(3) ne by (auto simp: canonicals_of_def duplicates_of_def)
      have 1: "canonicals_of a f (rows ?s') = [c]
          \<and> length (duplicates_of cid (rows ?s')) = length (duplicates_of cid (rows s))"
        if rows': "rows ?s' = rows s @ [r]"
      proof -
        have "canonicals_of a f (rows ?s') = canonicals_of a f (rows s) @ canonicals_of a f [r]"
          "duplicates_of cid (rows ?s') = duplicates_of cid (rows s) @ duplicates_of cid [r]"
          by (simp_all add: rows' canonicals_of_def duplicates_of_def)
        then show ?thesis by (simp add: nr c(1))
      qed
      have 2: "canonicals_of a f (rows ?s') = [c]
          \<and> length (duplicates_of cid (rows ?s')) = length (duplicates_of cid (rows s))"
        if rows': "rows ?s' = map (bump_count t (id_r k)) (rows s) @ [r]"
      proof -
        have "canonicals_of a f (rows ?s')
              = canonicals_of a f (map (bump_count t (id_r k)) (rows s)) @ canonicals_of a f [r]"
          "duplicates_of cid (rows ?s')
              = duplicates_of cid (map (bump_count t (id_r k)) (rows s)) @ duplicates_of cid [r]"
          by (simp_all add: rows' canonicals_of_def duplicates_of_def)
        moreover have "bump_count t (id_r k) c = c"
          using ne by (simp add: bump_count_other c(2))
        ultimately show ?thesis
          by (simp add: nr c(1) canonicals_of_bump duplicates_of_bump)
      qed
      note 1 2
    } note bumped = this
    have "canonicals_of a f (rows ?s') = [c]
          \<and> length (duplicates_of cid (rows ?s')) = length (duplicates_of cid (rows s))"
      using other_submission_rows[OF below key, of e u]
    proof (elim disjE exE conjE bexE)
      assume "rows ?s' = rows s"
      then show ?thesis by (simp add: c(1))
    next
      fix r :: report
      assume "\<not> (app_id r = a \<and> fingerprint r = f)" "rows ?s' = rows s @ [r]"
        "canonical_id r = None"
      then show ?thesis
        by (auto simp: canonicals_of_def duplicates_of_def c(1)[unfolded canonicals_of_def])
    next
      fix r k :: report and t
      assume "\<not> (app_id r = a \<and> fingerprint r = f)" "k \<in> set (rows s)"
        "\<not> (app_id k = a \<and> fingerprint k = f)" "canonical_id r = Some (id_r k)"
        "rows ?s' = rows s @ [r]"
      then show ?thesis by (rule bumped(1))
    next
      fix r k :: report and t
      assume "\<not> (app_id r = a \<and> fingerprint r = f)" "k \<in> set (rows s)"
        "\<not> (app_id k = a \<and> fingerprint k = f)" "canonical_id r = Some (id_r k)"
        "rows ?s' = map (bump_count t (id_r k)) (rows s) @ [r]"
      then show ?thesis by (rule bumped(2))
    qed
    then show ?thesis unfolding Submit run_op.simps using c(2-4) by simp
  next
    case (Update e i b)
    let ?w = "\<lambda>r. if id_r r = i then written b r else r"
    have run: "updateBugReport e i b s
               = (fst (updateBugReport e i b s), snd (updateBugReport e i b s))" by simp
    from updateBugReport_rows[OF run]
    show ?thesis unfolding Update run_op.simps
    proof
      assume "rows (snd (updateBugReport e i b s)) = rows s"
      then show "\<exists>c'. canonicals_of a f (rows (snd (updateBugReport e i b s))) = [c']
           \<and> id_r c' = cid \<and> created_at c' = t1 \<and> duplicate_count c' = int k
           \<and> length (duplicates_of cid (rows (snd (updateBugReport e i b s))))
              = length (duplicates_of cid (rows s))"
        using c by simp
    next
      assume "rows (snd (updateBugReport e i b s)) = map ?w (rows s)"
      then have "canonicals_of a f (rows (snd (updateBugReport e i b s))) = [?w c]"
        "length (duplicates_of cid (rows (snd (updateBugReport e i b s))))
              = length (duplicates_of cid (rows s))"
        by (simp_all add: canonicals_of_written duplicates_of_written c(1))
      moreover have "id_r (?w c) = cid" "created_at (?w c) = t1" "duplicate_count (?w c) = int k"
        using c(2-4) by (simp_all add: written_keeps)
      ultimately show "\<exists>c'. canonicals_of a f (rows (snd (updateBugReport e i b s))) = [c']
           \<and> id_r c' = cid \<and> created_at c' = t1 \<and> duplicate_count c' = int k
           \<and> length (duplicates_of cid (rows (snd (updateBugReport e i b s))))
              = length (duplicates_of cid (rows s))"
        by blast
    qed
  qed
  then show ?thesis unfolding counted_def using inv' dups by auto
qed

lemma counted_op_Submit:
  assumes "counted_op a f x"
  obtains e u b where "x = Submit e u b"
  using assms by (cases x) (simp_all add: counted_op_def)

lemma counted_not_other: "counted_op a f x \<Longrightarrow> \<not> other_op a f x"
  by (cases x) (simp_all add: counted_op_def other_op_def)

lemma later_operations:
  assumes "counted a f t1 cid k s"
    and "\<forall>x \<in> set ops. counted_op a f x \<or> other_op a f x"
    and "\<forall>x \<in> set (filter (counted_op a f) ops). sevenDaysAgo (op_env x) \<le> t1"
  shows "counted a f t1 cid (k + length (filter (counted_op a f) ops)) (run ops s)"
  using assms
proof (induction ops arbitrary: s k)
  case Nil
  then show ?case by simp
next
  case (Cons x xs)
  show ?case
  proof (cases "counted_op a f x")
    case True
    then obtain e u b where x: "x = Submit e u b" by (rule counted_op_Submit)
    have "sevenDaysAgo e \<le> t1" using Cons.prems(3) True by (simp add: x)
    with Cons.prems(1) True have "counted a f t1 cid (Suc k) (run_op x s)"
      unfolding x run_op.simps by (intro next_submission) simp_all
    from Cons.IH[OF this] Cons.prems(2,3) True show ?thesis by simp
  next
    case False
    with Cons.prems(2) have "other_op a f x" by simp
    with Cons.prems(1) have "counted a f t1 cid k (run_op x s)" by (rule other_op_counted)
    from Cons.IH[OF this] Cons.prems(2,3) False show ?thesis by simp
  qed
qed

lemma count_after_operations:
  assumes "ids_below s \<and> ids_unique s \<and> no_chain s"
    and "\<forall>r \<in> set (rows s). \<not> (app_id r = a \<and> fingerprint r = f)"
    and "\<forall>x \<in> set ops. counted_op a f x \<or> other_op a f x"
    and "filter (counted_op a f) ops = first # rest"
    and "\<forall>x \<in> set rest. sevenDaysAgo (op_env x) \<le> now (op_env first)"
  shows "\<exists>cid. counted a f (now (op_env first)) cid (Suc (length rest)) (run ops s)"
  using assms(1-4)
proof (induction ops arbitrary: s)
  case Nil
  then show ?case by simp
next
  case (Cons x xs)
  show ?case
  proof (cases "counted_op a f x")
    case True
    with Cons.prems(4) have fr: "x = first" "filter (counted_op a f) xs = rest" by simp_all
    from True obtain e u b where x: "x = Submit e u b" by (rule counted_op_Submit)
    have "counted a f (now e) (next_id s) 1 (snd (submitBugReport e u b s))"
      using Cons.prems(1,2) True by (intro first_submission) (simp_all add: x)
    then have "counted a f (now (op_env x)) (next_id s) 1 (run_op x s)"
      by (simp add: x)
    then have "counted a f (now (op_env first)) (next_id s) 1 (run_op x s)"
      unfolding fr(1) .
    from later_operations[OF this, of xs] Cons.prems(3) assms(5)
    have "counted a f (now (op_env first)) (next_id s) (Suc (length rest)) (run (x # xs) s)"
      by (simp add: fr(2))
    then show ?thesis by blast
  next
    case False
    with Cons.prems(3) have o: "other_op a f x" by simp
    have 1: "ids_below (run_op x s) \<and> ids_unique (run_op x s) \<and> no_chain (run_op x s)"
      using Cons.prems(1) by (rule run_op_invariants)
    have 2: "\<forall>r \<in> set (rows (run_op x s)). \<not> (app_id r = a \<and> fingerprint r = f)"
      using Cons.prems(1,2) o by (intro other_op_none) simp_all
    from Cons.IH[OF 1 2] Cons.prems(3,4) False show ?thesis by simp
  qed
qed


lemma reachable_run: "reachable s \<Longrightarrow> reachable (run ops s)"
proof (induction ops arbitrary: s)
  case Nil
  then show ?case by simp
next
  case (Cons x xs)
  have "reachable (run_op x s)"
  proof (cases x)
    case (Submit e u b)
    show ?thesis unfolding Submit run_op.simps using Cons.prems by (rule reachable.submit)
  next
    case (Update e i b)
    show ?thesis unfolding Update run_op.simps using Cons.prems by (rule reachable.update)
  qed
  from Cons.IH[OF this] show ?case by simp
qed

lemma crash_fingerprints:
  "generateFingerprint (js ''app1'') (js ''Crash on launch!!'') None
   = generateFingerprint (js ''app1'') (js ''crash on launch'') None"
  "generateFingerprint (js ''app1'') (js ''CRASH ON LAUNCH'') None
   = generateFingerprint (js ''app1'') (js ''crash on launch'') None"
  by (simp_all add: generateFingerprint_def fingerprint_input_def crash_texts)

lemma crash_keys:
  "submission_key (crash_body (js ''app1'') (js ''Crash on launch!!'') (js ''high''))
   = Some (js ''app1'', generateFingerprint (js ''app1'') (js ''crash on launch'') None)"
  "submission_key (crash_body (js ''app1'') (js ''crash on launch'') (js ''low''))
   = Some (js ''app1'', generateFingerprint (js ''app1'') (js ''crash on launch'') None)"
  "submission_key (crash_body (js ''app1'') (js ''CRASH ON LAUNCH'') (js ''medium''))
   = Some (js ''app1'', generateFingerprint (js ''app1'') (js ''crash on launch'') None)"
  "submission_key (crash_body (js ''app1'') (js ''crash on launch'') (js ''high''))
   = Some (js ''app1'', generateFingerprint (js ''app1'') (js ''crash on launch'') None)"
  "submission_key (crash_body (js ''app2'') (js ''Crash on launch!!'') (js ''high''))
   = Some (js ''app2'', generateFingerprint (js ''app2'') (js ''Crash on launch!!'') None)"
  by (simp_all add: submission_key_def crash_body_def crash_texts(1,2,6) crash_fingerprints)

lemma three_crashes_kinds:
  "\<forall>x \<in> set three_crashes.
     counted_op (js ''app1'') (generateFingerprint (js ''app1'') (js ''crash on launch'') None) x
     \<or> other_op (js ''app1'') (generateFingerprint (js ''app1'') (js ''crash on launch'') None) x"
  by (simp add: three_crashes_def counted_op_def other_op_def an_env_def crash_keys)

lemma three_crashes_counted:
  "filter (counted_op (js ''app1'')
             (generateFingerprint (js ''app1'') (js ''crash on launch'') None)) three_crashes
   = [Submit (an_env 1000) None
        (crash_body (js ''app1'') (js ''Crash on launch!!'') (js ''high'')),
      Submit (an_env 2000) None
        (crash_body (js ''app1'') (js ''crash on launch'') (js ''low'')),
      Submit (an_env 604801000) None
        (crash_body (js ''app1'') (js ''CRASH ON LAUNCH'') (js ''medium''))]"
  by (simp add: three_crashes_def counted_op_def an_env_def crash_keys)

lemma three_crashes_window:
  "\<forall>x \<in> set [Submit (an_env 2000) None
                  (crash_body (js ''app1'') (js ''crash on launch'') (js ''low'')),
                Submit (an_env 604801000) None
                  (crash_body (js ''app1'') (js ''CRASH ON LAUNCH'') (js ''medium''))].
     sevenDaysAgo (op_env x)
     \<le> now (op_env (Submit (an_env 1000) None
                       (crash_body (js ''app1'') (js ''Crash on launch!!'') (js ''high''))))"
  by (simp add: sevenDaysAgo_utc) (simp add: an_env_def)

lemma empty_store_invariants:
  "ids_below (empty_store n) \<and> ids_unique (empty_store n) \<and> no_chain (empty_store n)"
  by (simp add: ids_below_def ids_unique_def no_chain_def chain_free_def empty_store_def)

theorem no_chain_invariant_witness:
  "reachable (run three_crashes (empty_store 0))
   \<and> (\<exists>r \<in> set (rows (run three_crashes (empty_store 0))).
        \<exists>k \<in> set (rows (run three_crashes (empty_store 0))).
          canonical_id r = Some (id_r k) \<and> id_r k \<noteq> id_r r \<and> app_id k = app_id r
          \<and> canonical_id k = None)"
proof -
  let ?s = "run three_crashes (empty_store 0)"
  have reach: "reachable ?s" by (rule reachable_run[OF reachable.init])
  have none: "\<forall>r \<in> set (rows (empty_store 0)).
      \<not> (app_id r = js ''app1''
         \<and> fingerprint r = generateFingerprint (js ''app1'') (js ''crash on launch'') None)"
    by (simp add: empty_store_def)
  from count_after_operations[OF empty_store_invariants none three_crashes_kinds
      three_crashes_counted three_crashes_window]
  obtain cid where "Suc (length (duplicates_of cid (rows ?s))) = 3"
    by (auto simp: counted_def numeral_3_eq_3)
  then have "duplicates_of cid (rows ?s) \<noteq> []"
    by (cases "duplicates_of cid (rows ?s)") simp_all
  then obtain r where "r \<in> set (duplicates_of cid (rows ?s))"
    by (cases "duplicates_of cid (rows ?s)") auto
  then have r: "r \<in> set (rows ?s)" "canonical_id r \<noteq> None"
    by (simp_all add: duplicates_of_def)
  from no_chain_invariant[OF reach r(1)] r(2)
  have "\<exists>k \<in> set (rows ?s). canonical_id r = Some (id_r k) \<and> id_r k \<noteq> id_r r
          \<and> app_id k = app_id r \<and> canonical_id k = None"
    by blast
  then show ?thesis using reach r(1) by blast
qed

text \<open>
  C1 (as found in the code). Two valid submissions of one report by one tenant, six days,
  23 hours and 30 minutes apart, no store operation failing, on a server on the time of
  New York, the clocks going forward in between: the window of the second submission
  starts at its local time of day seven calendar days earlier, which is 30 minutes after
  the first submission. The store then holds two canonical records of the fingerprint,
  each counting 1, and no duplicate.
\<close>

theorem second_canonical_within_seven_days:
  "map (counted_op (js ''app1'')
          (generateFingerprint (js ''app1'') (js ''crash on launch'') None)) spring_crashes
   = [True, True]
   \<and> map now (map op_env spring_crashes) = [1741176000000, 1741779000000]
   \<and> (1741779000000 :: int) - 7 * msPerDay \<le> 1741176000000
   \<and> map app_id (rows (run spring_crashes (empty_store 0))) = [js ''app1'', js ''app1'']
   \<and> map fingerprint (rows (run spring_crashes (empty_store 0)))
       = [generateFingerprint (js ''app1'') (js ''crash on launch'') None,
          generateFingerprint (js ''app1'') (js ''crash on launch'') None]
   \<and> map created_at (rows (run spring_crashes (empty_store 0)))
       = [1741176000000, 1741779000000]
   \<and> map canonical_id (rows (run spring_crashes (empty_store 0))) = [None, None]
   \<and> map duplicate_count (rows (run spring_crashes (empty_store 0))) = [1, 1]
   \<and> length (canonicals_of (js ''app1'')
               (generateFingerprint (js ''app1'') (js ''crash on launch'') None)
               (rows (run spring_crashes (empty_store 0)))) = 2"
proof -
  let ?b = "crash_body (js ''app1'') (js ''crash on launch'') (js ''high'')"
  let ?fp = "generateFingerprint (js ''app1'') (js ''crash on launch'') None"
  let ?e1 = "new_york 1741176000000"
  let ?e2 = "new_york 1741779000000"
  let ?s1 = "snd (submitBugReport ?e1 None ?b (empty_store 0))"
  let ?s2 = "snd (submitBugReport ?e2 None ?b ?s1)"
  let ?r1 = "created_row ?e1 None ?b (js ''app1'') (js ''crash on launch'') (js ''high'')
               (empty_store 0)"
  let ?r2 = "created_row ?e2 None ?b (js ''app1'') (js ''crash on launch'') (js ''high'') ?s1"
  have v: "nonempty_string (appId ?b) = Some (js ''app1'')"
    "nonempty_string (body_description ?b) = Some (js ''crash on launch'')"
    "5 \<le> length (trim (js ''crash on launch''))"
    "valid_priority (body_priority ?b) = Some (js ''high'')"
    and screen: "screenName ?b = None"
    by (simp_all add: crash_body_def crash_texts(6))
  have e: "insert_fault (new_york t) = None" "select_fault (new_york t) = None"
    "rpc_fault (new_york t) = None" "now (new_york t) = t" for t
    by (simp_all add: new_york_def an_env_def)
  have ins: "insert_fault ?e1 = None" "insert_fault ?e2 = None" by (simp_all add: e(1))
  have run: "run spring_crashes (empty_store 0) = ?s2"
    by (simp add: spring_crashes_def)
  have below0: "ids_below (empty_store 0)" using empty_store_invariants[of 0] by simp
  have "ids_below ?s1 \<and> ids_unique ?s1 \<and> no_chain ?s1"
    by (rule submit_step[OF empty_store_invariants])
  then have below1: "ids_below ?s1" by simp
  have m1: "fst (findDuplicate ?e1 ?fp (js ''app1'') (empty_store 0)) = None"
    by (rule findDuplicate_none) (simp add: canonicals_of_def empty_store_def)
  have rows1: "rows ?s1 = [?r1]"
    using submit_rows[OF v ins(1) below0, of None] m1 by (simp add: screen empty_store_def)
  have at1: "created_at ?r1 = 1741176000000" by (simp add: created_row_fields e(4))
  have m2: "fst (findDuplicate ?e2 ?fp (js ''app1'') ?s1) = None"
  proof (cases "fst (findDuplicate ?e2 ?fp (js ''app1'') ?s1)")
    case None
    then show ?thesis .
  next
    case (Some cid)
    from findDuplicate_Some[OF Some] obtain c where "c \<in> set (rows ?s1)"
      "sevenDaysAgo ?e2 \<le> created_at c" by blast
    then have "sevenDaysAgo ?e2 \<le> 1741176000000" by (simp add: rows1 at1)
    then show ?thesis by (simp add: sevenDaysAgo_new_york(2))
  qed
  have rows2: "rows ?s2 = [?r1, ?r2]"
    using submit_rows[OF v ins(2) below1, of None] m2 by (simp add: screen rows1)
  have r1: "app_id ?r1 = js ''app1''" "fingerprint ?r1 = ?fp" "canonical_id ?r1 = None"
    "duplicate_count ?r1 = 1"
    using m1 by (simp_all add: created_row_fields screen)
  have r2: "app_id ?r2 = js ''app1''" "fingerprint ?r2 = ?fp" "canonical_id ?r2 = None"
    "duplicate_count ?r2 = 1" "created_at ?r2 = 1741779000000"
    using m2 by (simp_all add: created_row_fields screen e(4))
  have 1: "map (counted_op (js ''app1'') ?fp) spring_crashes = [True, True]"
    by (simp add: spring_crashes_def counted_op_def e crash_keys(4))
  have 2: "map now (map op_env spring_crashes) = [1741176000000, 1741779000000]"
    by (simp add: spring_crashes_def e(4))
  have 3: "(1741779000000 :: int) - 7 * msPerDay \<le> 1741176000000"
    by (simp add: msPerDay_def)
  have 4: "map app_id (rows ?s2) = [js ''app1'', js ''app1'']"
    "map fingerprint (rows ?s2) = [?fp, ?fp]"
    "map created_at (rows ?s2) = [1741176000000, 1741779000000]"
    "map canonical_id (rows ?s2) = [None, None]"
    "map duplicate_count (rows ?s2) = [1, 1]"
    "length (canonicals_of (js ''app1'') ?fp (rows ?s2)) = 2"
    by (simp_all add: rows2 r1 r2 at1 canonicals_of_def)
  show ?thesis unfolding run
    by (intro conjI) (rule 1 2 3 4)+
qed

text \<open>
  C1 (amended). In a store that sequences of submissions and updates have produced and
  that holds no report of the tenant with the fingerprint, let operations run one after
  the other: N >= 1 of them are valid submissions of the tenant with that fingerprint
  during which no store operation fails, and every other one is an update, a rejected
  submission or a submission of another tenant or fingerprint (store operations may fail
  there). Let the window of each later one of the N submissions, as the code computes
  it (the instant that has, on the server's clock, the same local time of day seven
  calendar days earlier), start no later than the first of them was made. Then the store
  holds exactly one canonical record of the tenant with the fingerprint, its duplicate
  count is N, and exactly N - 1 records have it as canonical id.
\<close>

theorem count_conservation:
  assumes "reachable s0"
    and "\<forall>r \<in> set (rows s0). \<not> (app_id r = a \<and> fingerprint r = f)"
    and "\<forall>x \<in> set ops. counted_op a f x \<or> other_op a f x"
    and "filter (counted_op a f) ops = first # rest"
    and "\<forall>x \<in> set rest. sevenDaysAgo (op_env x) \<le> now (op_env first)"
  shows "\<exists>c. canonicals_of a f (rows (run ops s0)) = [c]
           \<and> duplicate_count c = int (length (first # rest))
           \<and> length (duplicates_of (id_r c) (rows (run ops s0))) = length (first # rest) - 1"
proof -
  from count_after_operations[OF reachable_invariants[OF assms(1)] assms(2-5)]
  obtain cid where "counted a f (now (op_env first)) cid (Suc (length rest)) (run ops s0)"
    by blast
  then show ?thesis by (auto simp: counted_def)
qed

theorem count_conservation_witness:
  "reachable (empty_store 0)
   \<and> length (filter (counted_op (js ''app1'')
                (generateFingerprint (js ''app1'') (js ''crash on launch'') None))
              three_crashes) = 3
   \<and> length (filter (other_op (js ''app1'')
                (generateFingerprint (js ''app1'') (js ''crash on launch'') None))
              three_crashes) = 2
   \<and> (\<exists>c. canonicals_of (js ''app1'')
             (generateFingerprint (js ''app1'') (js ''crash on launch'') None)
             (rows (run three_crashes (empty_store 0))) = [c]
         \<and> duplicate_count c = 3
         \<and> length (duplicates_of (id_r c) (rows (run three_crashes (empty_store 0)))) = 2)"
proof -
  let ?fp = "generateFingerprint (js ''app1'') (js ''crash on launch'') None"
  have none: "\<forall>r \<in> set (rows (empty_store 0)).
      \<not> (app_id r = js ''app1'' \<and> fingerprint r = ?fp)"
    by (simp add: empty_store_def)
  have others: "length (filter (other_op (js ''app1'') ?fp) three_crashes) = 2"
    by (simp add: three_crashes_def other_op_def crash_keys)
  from count_conservation[OF reachable.init none three_crashes_kinds three_crashes_counted
      three_crashes_window]
  have main: "\<exists>c. canonicals_of (js ''app1'') ?fp (rows (run three_crashes (empty_store 0))) = [c]
      \<and> duplicate_count c = 3
      \<and> length (duplicates_of (id_r c) (rows (run three_crashes (empty_store 0)))) = 2"
    by (simp add: numeral_2_eq_2)
  have cnt: "length (filter (counted_op (js ''app1'') ?fp) three_crashes) = 3"
    by (simp add: three_crashes_counted)
  show ?thesis
    by (intro conjI) (rule reachable.init cnt others main)+
qed

section \<open>Fingerprints\<close>










































end
